theory Spec2Isabelle
  imports Main "HOL-Library.Sublist"
begin

section \<open>Text\<close>

text \<open>
  The script \<^verbatim>\<open>scripts/replace-prisma.py\<close> works on Python \<^verbatim>\<open>str\<close> values: file contents
  decoded from UTF-8 and the \<^verbatim>\<open>str()\<close> of paths. A \<^verbatim>\<open>str\<close> is a sequence of Unicode code
  points, so it is modelled as a list of natural numbers. \<open>lit\<close> turns an ASCII literal
  of the source into such a list. The test \<^verbatim>\<open>p in s\<close> of Python is \<^term>\<open>sublist p s\<close>
  (a contiguous occurrence), \<^verbatim>\<open>s.startswith(p)\<close> is \<^term>\<open>prefix p s\<close>.
\<close>

type_synonym str = "nat list"

definition lit :: "string \<Rightarrow> str" where
  "lit s = map of_char s"

abbreviation nl :: nat where
  "nl \<equiv> 10"

abbreviation cr :: nat where
  "cr \<equiv> 13"

abbreviation quote :: nat where
  "quote \<equiv> 39"

abbreviation slash :: nat where
  "slash \<equiv> 47"

abbreviation backslash :: nat where
  "backslash \<equiv> 92"

text \<open>
  The class \<^verbatim>\<open>\s\<close> of \<^verbatim>\<open>re\<close> on a \<^verbatim>\<open>str\<close> pattern: the code points for which
  \<^verbatim>\<open>str.isspace\<close> holds (tab to carriage return, the four separators 0x1C to 0x1F,
  space, NEL, no-break space and the Unicode space separators).
\<close>

definition is_space :: "nat \<Rightarrow> bool" where
  "is_space c = (c \<in> {9..13} \<union> {28..32} \<union> {133, 160, 5760} \<union> {8192..8202}
                   \<union> {8232, 8233, 8239, 8287, 12288})"

text \<open>\<^verbatim>\<open>s.split(sep)\<close> for a separator of one character, and \<^verbatim>\<open>sep.join(xs)\<close>.\<close>

fun split_on :: "'a \<Rightarrow> 'a list \<Rightarrow> 'a list list" where
  "split_on sep [] = [[]]"
| "split_on sep (c # cs) =
     (if c = sep then [] # split_on sep cs
      else (case split_on sep cs of x # xs \<Rightarrow> (c # x) # xs | [] \<Rightarrow> [[c]]))"

fun join_with :: "'a \<Rightarrow> 'a list list \<Rightarrow> 'a list" where
  "join_with sep [] = []"
| "join_with sep [x] = x"
| "join_with sep (x # y # ys) = x @ sep # join_with sep (y # ys)"

text \<open>
  What \<^verbatim>\<open>f.read()\<close> makes of the decoded characters of a file opened in text mode with
  the default \<^verbatim>\<open>newline=None\<close>: a carriage return followed by a line feed, and a carriage
  return alone, are each read as one line feed.
\<close>

fun universal_newlines :: "str \<Rightarrow> str" where
  "universal_newlines [] = []"
| "universal_newlines [c] = [if c = cr then nl else c]"
| "universal_newlines (c # d # cs) =
     (if c = cr then
        (if d = nl then nl # universal_newlines cs else nl # universal_newlines (d # cs))
      else c # universal_newlines (d # cs))"

section \<open>Errors, messages and the file system\<close>

text \<open>
  The exceptions the script can meet. \<open>ValueError\<close> is raised by \<^verbatim>\<open>os.path.relpath\<close> and
  \<^verbatim>\<open>Path.with_suffix\<close>; \<open>FileNotFoundError\<close> stands for every failure of \<^verbatim>\<open>open\<close> for
  reading and of the decoding of what is read; \<open>PermissionError\<close> stands for every
  failure of \<^verbatim>\<open>open\<close> for writing; \<open>TemplateError\<close> stands for the exception \<^verbatim>\<open>re.sub\<close>
  raises for a replacement template it cannot compile (\<^verbatim>\<open>re.error\<close>, or \<^verbatim>\<open>IndexError\<close> for
  the name of a group the pattern does not have).
\<close>

datatype error = ValueError | FileNotFoundError | PermissionError | TemplateError

text \<open>One constructor for each \<^verbatim>\<open>print\<close> of the script, with the values it formats.\<close>

datatype message =
    Processing str
  | AlreadySingleton
  | Updated
  | NoChanges
  | DirNotFound str
  | ErrorReading str
  | Found nat
  | Complete nat nat
  | BackupNote

datatype event = Print message | ReadFile str | WriteFile str str

text \<open>
  The world the script runs in, on a POSIX system: the working directory of the
  process; the paths \<^verbatim>\<open>os.walk\<close> order gives for the entries below the root
  \<^verbatim>\<open>apps/api-gateway/src\<close> (\<open>None\<close> when the root does not exist); the files that can be
  opened for reading, each with the characters its bytes decode to (a file that cannot
  be opened or decoded has none); the paths that can be opened for writing; and the
  trace of what the run printed, read and wrote, oldest event first. Paths and texts
  hold no lone surrogate, so that every text can be encoded, and printing succeeds.
\<close>

record world =
  cwd :: str
  root_entries :: "str list option"
  files :: "str \<rightharpoonup> str"
  writable :: "str \<Rightarrow> bool"
  trace :: "event list"

definition emit :: "event \<Rightarrow> world \<Rightarrow> world" where
  "emit e w = w\<lparr>trace := trace w @ [e]\<rparr>"

text \<open>
  \<^verbatim>\<open>with open(p, 'r', encoding='utf-8') as f: f.read()\<close>: the text of the file as text mode
  gives it.
\<close>

definition read_text :: "world \<Rightarrow> str \<Rightarrow> str option" where
  "read_text w p = map_option universal_newlines (files w p)"

text \<open>
  \<^verbatim>\<open>with open(p, 'w', encoding='utf-8') as f: f.write(c)\<close>. When the path cannot be
  opened, \<^verbatim>\<open>open\<close> raises and nothing is written. Otherwise the file holds the text
  written: \<^verbatim>\<open>os.linesep\<close> is the line feed, so writing translates nothing. A write that
  fails after the file has been opened (a full disk) is not in this model.
\<close>

definition write_file :: "str \<Rightarrow> str \<Rightarrow> world \<Rightarrow> error + world" where
  "write_file p c w =
     (if writable w p
      then Inr (w\<lparr>files := (files w)(p \<mapsto> c), trace := trace w @ [WriteFile p c]\<rparr>)
      else Inl PermissionError)"

section \<open>Relative import path (lines 11 to 26)\<close>

text \<open>
  \<^verbatim>\<open>pathlib\<close> on POSIX: a path is its anchor (absolute or not) and its parts; parsing drops
  empty parts and \<^verbatim>\<open>.\<close> parts and keeps \<^verbatim>\<open>..\<close>. \<open>path_str\<close> is \<^verbatim>\<open>str(path)\<close>.
\<close>

definition is_abs :: "str \<Rightarrow> bool" where
  "is_abs p = prefix [slash] p"

definition path_parts :: "str \<Rightarrow> str list" where
  "path_parts p = filter (\<lambda>x. x \<noteq> [] \<and> x \<noteq> lit ''.'') (split_on slash p)"

definition path_str :: "bool \<Rightarrow> str list \<Rightarrow> str" where
  "path_str absolute parts =
     (if absolute then slash # join_with slash parts
      else if parts = [] then lit ''.'' else join_with slash parts)"

text \<open>
  The name without its last suffix (\<^verbatim>\<open>PurePath.stem\<close>, which \<^verbatim>\<open>with_suffix('')\<close> keeps):
  with \<^verbatim>\<open>i = name.rfind('.')\<close>, the name up to \<open>i\<close> when \<^verbatim>\<open>0 < i < len(name) - 1\<close>, the whole
  name otherwise.
\<close>

definition stem :: "str \<Rightarrow> str" where
  "stem name =
     (let after = takeWhile (\<lambda>c. c \<noteq> 46) (rev name);
          i = length name - Suc (length after)
      in if 46 \<in> set name \<and> 0 < i \<and> after \<noteq> [] then take i name else name)"

text \<open>
  \<^verbatim>\<open>[x for x in abspath(p).split(sep) if x]\<close> of \<^verbatim>\<open>posixpath.relpath\<close>: the components of
  \<^verbatim>\<open>normpath(join(getcwd(), p))\<close>. An absolute \<open>p\<close> replaces the working directory; empty
  and \<^verbatim>\<open>.\<close> components are dropped; \<^verbatim>\<open>..\<close> removes the component before it, and is dropped at
  the root.
\<close>

definition norm_step :: "str list \<Rightarrow> str \<Rightarrow> str list" where
  "norm_step comps c =
     (if c = [] \<or> c = lit ''.'' then comps
      else if c = lit ''..'' then butlast comps
      else comps @ [c])"

definition abs_comps :: "str \<Rightarrow> str \<Rightarrow> str list" where
  "abs_comps wd p =
     foldl norm_step [] ((if is_abs p then [] else split_on slash wd) @ split_on slash p)"

text \<open>\<^verbatim>\<open>len(commonprefix([start_list, path_list]))\<close>.\<close>

fun common_len :: "'a list \<Rightarrow> 'a list \<Rightarrow> nat" where
  "common_len (x # xs) (y # ys) = (if x = y then Suc (common_len xs ys) else 0)"
| "common_len _ _ = 0"

definition relpath :: "str \<Rightarrow> str \<Rightarrow> str \<Rightarrow> error + str" where
  "relpath wd path start =
     (if path = [] then Inl ValueError
      else
        let start_list = abs_comps wd start;
            path_list = abs_comps wd path;
            i = common_len start_list path_list;
            rel_list = replicate (length start_list - i) (lit ''..'') @ drop i path_list
        in Inr (if rel_list = [] then lit ''.'' else join_with slash rel_list))"

definition default_to_file :: str where
  "default_to_file = lit ''apps/api-gateway/src/lib/prisma.ts''"

text \<open>
  \<^verbatim>\<open>calculate_relative_path(from_file, to_file)\<close>. \<^verbatim>\<open>with_suffix\<close> is called before the
  \<^verbatim>\<open>try\<close>, so its \<^verbatim>\<open>ValueError\<close> (a target with no name) is not caught; the one of
  \<^verbatim>\<open>relpath\<close> is, and gives the fixed specifier. \<^verbatim>\<open>os.sep\<close> is \<^verbatim>\<open>/\<close>, so
  \<^verbatim>\<open>rel_path.replace(os.sep, '/')\<close> is \<^verbatim>\<open>rel_path\<close>.
\<close>

definition calculate_relative_path :: "str \<Rightarrow> str \<Rightarrow> str \<Rightarrow> error + str" where
  "calculate_relative_path wd from_file to_file =
     (let from_dir = path_str (is_abs from_file) (butlast (path_parts from_file));
          to_parts = path_parts to_file
      in if to_parts = [] then Inl ValueError
         else
           let to_path = path_str (is_abs to_file) (butlast to_parts @ [stem (last to_parts)])
           in case relpath wd to_path from_dir of
                Inl e \<Rightarrow> Inr (lit ''../lib/prisma'')
              | Inr rel_path \<Rightarrow>
                  let import_path = rel_path
                  in Inr (if \<not> prefix (lit ''.'') import_path then lit ''./'' @ import_path
                          else import_path))"

section \<open>The regular expressions\<close>

text \<open>
  A matcher takes the text at a position and returns the text after the match, or
  \<open>None\<close>. The operators of the patterns are written in continuation style, so that
  each one tries its alternatives in the order of the backtracking matcher of \<^verbatim>\<open>re\<close>:
  \<open>greedy_ws k\<close> is \<^verbatim>\<open>\s*\<close> followed by \<open>k\<close> (longest run first), \<open>opt_char c k\<close> is
  \<^verbatim>\<open>c?\<close> followed by \<open>k\<close>, \<open>lazy_dot k\<close> is \<^verbatim>\<open>.*?\<close> followed by \<open>k\<close> (shortest run first;
  \<^verbatim>\<open>.\<close> is any character but the newline), \<open>lit_then p k\<close> is the literal \<open>p\<close> followed
  by \<open>k\<close>.
\<close>

type_synonym matcher = "str \<Rightarrow> str option"

fun greedy_ws :: "matcher \<Rightarrow> matcher" where
  "greedy_ws k [] = k []"
| "greedy_ws k (c # cs) =
     (if is_space c then
        (case greedy_ws k cs of Some r \<Rightarrow> Some r | None \<Rightarrow> k (c # cs))
      else k (c # cs))"

fun opt_char :: "nat \<Rightarrow> matcher \<Rightarrow> matcher" where
  "opt_char x k [] = k []"
| "opt_char x k (c # cs) =
     (if c = x then (case k cs of Some r \<Rightarrow> Some r | None \<Rightarrow> k (c # cs))
      else k (c # cs))"

fun lazy_dot :: "matcher \<Rightarrow> matcher" where
  "lazy_dot k [] = k []"
| "lazy_dot k (c # cs) =
     (case k (c # cs) of
        Some r \<Rightarrow> Some r
      | None \<Rightarrow> if c \<noteq> nl then lazy_dot k cs else None)"

definition lit_then :: "str \<Rightarrow> matcher \<Rightarrow> matcher" where
  "lit_then p k s = (if prefix p s then k (drop (length p) s) else None)"

text \<open>The four patterns of the script and the two literals tested with \<^verbatim>\<open>in\<close>.\<close>

definition client_import :: str where
  "client_import = lit ''from '@prisma/client';''"

definition construction :: str where
  "construction = lit ''new PrismaClient()''"

definition prisma_decl :: str where
  "prisma_decl = lit ''const prisma = new PrismaClient()''"

definition field_assign :: str where
  "field_assign = lit ''this.prisma = new PrismaClient()''"

definition fallback_assign :: str where
  "fallback_assign = lit ''this.prisma = prisma || new PrismaClient()''"

definition singleton_assign :: str where
  "singleton_assign = lit ''this.prisma = prisma''"

text \<open>\<^verbatim>\<open>(from '@prisma/client';)\<close>\<close>

definition match_client_import :: matcher where
  "match_client_import = lit_then client_import Some"

text \<open>\<^verbatim>\<open>(import .*?;\n)\<close>\<close>

definition match_import :: matcher where
  "match_import = lit_then (lit ''import '') (lazy_dot (lit_then (lit '';'' @ [nl]) Some))"

text \<open>
  \<^verbatim>\<open>^\s*const prisma = new PrismaClient\(\);?\s*\n\<close>, after the anchor: with
  \<^verbatim>\<open>re.MULTILINE\<close> the anchor holds at the start of the text and after each newline, which
  the substitution below tracks.
\<close>

definition match_decl :: matcher where
  "match_decl =
     greedy_ws (lit_then prisma_decl (opt_char 59 (greedy_ws (lit_then [nl] Some))))"

section \<open>The substitutions\<close>

text \<open>
  \<^verbatim>\<open>re.sub(pattern, repl, s, count=1)\<close>: the leftmost match is replaced by \<open>repl\<close> applied
  to the matched text (group 1 is the whole match in both patterns used with it). No
  pattern of the script matches the empty text.
\<close>

fun sub_first :: "matcher \<Rightarrow> (str \<Rightarrow> str) \<Rightarrow> str \<Rightarrow> str" where
  "sub_first m repl [] = []"
| "sub_first m repl (c # cs) =
     (case m (c # cs) of
        Some r \<Rightarrow> repl (take (length (c # cs) - length r) (c # cs)) @ r
      | None \<Rightarrow> c # sub_first m repl cs)"

text \<open>
  \<^verbatim>\<open>re.sub(literal, repl, s)\<close> for a literal pattern that is not empty: every match, found
  from left to right, each search starting where the last match ended.
\<close>

function sub_literal :: "str \<Rightarrow> str \<Rightarrow> str \<Rightarrow> str" where
  "sub_literal p repl [] = []"
| "sub_literal p repl (c # cs) =
     (if p \<noteq> [] \<and> prefix p (c # cs)
      then repl @ sub_literal p repl (drop (length p) (c # cs))
      else c # sub_literal p repl cs)"
  by pat_completeness auto
termination
  by (relation "measure (\<lambda>(p, repl, s). length s)") (auto simp: neq_Nil_conv)

text \<open>
  \<^verbatim>\<open>re.sub(r'^\s*const prisma = new PrismaClient\(\);?\s*\n', '', s, flags=re.MULTILINE)\<close>.
  \<open>bol\<close> says that the anchor holds at the current position. A match ends with a newline,
  so the search after a match starts at the beginning of a line again.
\<close>

function remove_decls :: "bool \<Rightarrow> str \<Rightarrow> str" where
  "remove_decls bol [] = []"
| "remove_decls bol (c # cs) =
     (case (if bol then match_decl (c # cs) else None) of
        Some r \<Rightarrow> remove_decls True r
      | None \<Rightarrow> c # remove_decls (c = nl) cs)"
  by pat_completeness auto

lemma greedy_ws_Some:
  "greedy_ws k s = Some r \<Longrightarrow> \<exists>ws s'. s = ws @ s' \<and> (\<forall>c\<in>set ws. is_space c) \<and> k s' = Some r"
proof (induction s)
  case Nil
  then show ?case by simp
next
  case (Cons c cs)
  show ?case
  proof (cases "is_space c \<and> greedy_ws k cs = Some r")
    case True
    then obtain ws s' where "cs = ws @ s'" "\<forall>c\<in>set ws. is_space c" "k s' = Some r"
      using Cons.IH by blast
    with True have "c # cs = (c # ws) @ s' \<and> (\<forall>x\<in>set (c # ws). is_space x) \<and> k s' = Some r"
      by simp
    then show ?thesis by blast
  next
    case False
    with Cons.prems have "k (c # cs) = Some r"
      by (auto split: if_splits option.splits)
    then have "c # cs = [] @ (c # cs) \<and> (\<forall>x\<in>set []. is_space x) \<and> k (c # cs) = Some r"
      by simp
    then show ?thesis by blast
  qed
qed

lemma opt_char_Some:
  "opt_char x k s = Some r \<Longrightarrow> (\<exists>s'. s = x # s' \<and> k s' = Some r) \<or> k s = Some r"
  by (cases s) (auto split: if_splits option.splits)

lemma lit_then_Some:
  "lit_then p k s = Some r \<Longrightarrow> \<exists>s'. s = p @ s' \<and> k s' = Some r"
  by (auto simp: lit_then_def prefix_def split: if_splits)

lemma match_decl_Some:
  assumes "match_decl s = Some r"
  shows "\<exists>ws1 semi ws2. s = ws1 @ prisma_decl @ semi @ ws2 @ [nl] @ r
           \<and> (\<forall>c\<in>set ws1. is_space c) \<and> (semi = [] \<or> semi = [59]) \<and> (\<forall>c\<in>set ws2. is_space c)"
proof -
  from assms obtain ws1 s1 where s: "s = ws1 @ s1" and ws1: "\<forall>c\<in>set ws1. is_space c"
    and k1: "lit_then prisma_decl (opt_char 59 (greedy_ws (lit_then [nl] Some))) s1 = Some r"
    unfolding match_decl_def using greedy_ws_Some by blast
  from k1 obtain s2 where s1: "s1 = prisma_decl @ s2"
    and k2: "opt_char 59 (greedy_ws (lit_then [nl] Some)) s2 = Some r"
    using lit_then_Some by blast
  have "\<exists>semi s3. s2 = semi @ s3 \<and> (semi = [] \<or> semi = [59])
           \<and> greedy_ws (lit_then [nl] Some) s3 = Some r"
  proof (cases "greedy_ws (lit_then [nl] Some) s2 = Some r")
    case True
    then have "s2 = [] @ s2 \<and> ([] = [] \<or> [] = [59::nat])
           \<and> greedy_ws (lit_then [nl] Some) s2 = Some r"
      by simp
    then show ?thesis by blast
  next
    case False
    with opt_char_Some [OF k2] obtain s' where "s2 = 59 # s'"
      and "greedy_ws (lit_then [nl] Some) s' = Some r"
      by blast
    then have "s2 = [59] @ s' \<and> ([59] = [] \<or> [59] = [59::nat])
           \<and> greedy_ws (lit_then [nl] Some) s' = Some r"
      by simp
    then show ?thesis by blast
  qed
  then obtain semi s3 where s2: "s2 = semi @ s3" and semi: "semi = [] \<or> semi = [59]"
    and k3: "greedy_ws (lit_then [nl] Some) s3 = Some r"
    by blast
  from k3 obtain ws2 s4 where s3: "s3 = ws2 @ s4" and ws2: "\<forall>c\<in>set ws2. is_space c"
    and k4: "lit_then [nl] Some s4 = Some r"
    using greedy_ws_Some by blast
  from k4 have s4: "s4 = [nl] @ r"
    by (auto simp: lit_then_def prefix_def split: if_splits)
  have "s = ws1 @ prisma_decl @ semi @ ws2 @ [nl] @ r"
    by (simp add: s s1 s2 s3 s4)
  with ws1 semi ws2 show ?thesis
    by blast
qed

lemma match_decl_shorter: "match_decl s = Some r \<Longrightarrow> length r < length s"
  using match_decl_Some [of s r] by auto

termination remove_decls
  by (relation "measure (\<lambda>(bol, s). length s)")
     (auto split: if_splits dest: match_decl_shorter)

section \<open>The replacement templates\<close>

text \<open>
  \<^verbatim>\<open>re.sub\<close> compiles a replacement that holds a backslash before it searches
  (\<^verbatim>\<open>parse_template\<close> of \<^verbatim>\<open>re\<close>, as version 3.11 has it), and both templates of the script
  hold \<^verbatim>\<open>rel_path\<close>. The template is read token by token: a character, or a backslash
  with the character after it. A backslash at the very end is an error.
\<close>

datatype token = Plain nat | Escaped nat

fun tokenize :: "str \<Rightarrow> token list option" where
  "tokenize [] = Some []"
| "tokenize [c] = (if c = backslash then None else Some [Plain c])"
| "tokenize (c # x # xs) =
     (if c = backslash then map_option ((#) (Escaped x)) (tokenize xs)
      else map_option ((#) (Plain c)) (tokenize (x # xs)))"

fun token_text :: "token \<Rightarrow> str" where
  "token_text (Plain c) = [c]"
| "token_text (Escaped c) = [backslash, c]"

text \<open>
  \<^verbatim>\<open>int(name)\<close> for the name of \<^verbatim>\<open>\g<name>\<close>. The characters are first brought to ASCII:
  a code point below 127 stays, a space above becomes the blank, a decimal digit of
  another script becomes its ASCII digit (\<open>nd_zeros\<close> lists the zero of each run of ten
  decimal digits of Unicode 14), and anything else is no numeral. Then come blanks, a
  sign, digits with single underscores between them, and blanks; more than 4300 digits
  are refused. The result is the sign and the magnitude.
\<close>

definition nd_zeros :: "nat list" where
  "nd_zeros =
     [48, 1632, 1776, 1984, 2406, 2534, 2662, 2790, 2918, 3046, 3174, 3302, 3430, 3558,
      3664, 3792, 3872, 4160, 4240, 6112, 6160, 6470, 6608, 6784, 6800, 6992, 7088, 7232,
      7248, 42528, 43216, 43264, 43472, 43504, 43600, 44016, 65296, 66720, 68912, 69734,
      69872, 69942, 70096, 70384, 70736, 70864, 71248, 71360, 71472, 71904, 72016, 72784,
      73040, 73120, 92768, 92864, 93008, 120782, 120792, 120802, 120812, 120822, 123200,
      123632, 125264, 130032]"

definition to_decimal :: "nat \<Rightarrow> nat option" where
  "to_decimal c = map_option (\<lambda>z. c - z) (find (\<lambda>z. z \<le> c \<and> c < z + 10) nd_zeros)"

definition ascii_space :: "nat \<Rightarrow> bool" where
  "ascii_space c = (9 \<le> c \<and> c \<le> 13 \<or> c = 32)"

definition digit :: "nat \<Rightarrow> bool" where
  "digit c = (48 \<le> c \<and> c \<le> 57)"

definition octdigit :: "nat \<Rightarrow> bool" where
  "octdigit c = (48 \<le> c \<and> c \<le> 55)"

definition ascii_letter :: "nat \<Rightarrow> bool" where
  "ascii_letter c = (65 \<le> c \<and> c \<le> 90 \<or> 97 \<le> c \<and> c \<le> 122)"

fun to_ascii :: "str \<Rightarrow> str option" where
  "to_ascii [] = Some []"
| "to_ascii (c # cs) =
     (case (if c < 127 then Some c
            else if is_space c then Some 32
            else map_option (\<lambda>d. 48 + d) (to_decimal c)) of
        None \<Rightarrow> None
      | Some a \<Rightarrow> map_option ((#) a) (to_ascii cs))"

definition numeral_body :: "str \<Rightarrow> bool" where
  "numeral_body body =
     (body \<noteq> [] \<and> hd body \<noteq> 95 \<and> last body \<noteq> 95 \<and> \<not> sublist [95, 95] body)"

definition py_int :: "str \<Rightarrow> (bool \<times> nat) option" where
  "py_int name =
     (case to_ascii name of
        None \<Rightarrow> None
      | Some a \<Rightarrow>
          let s = dropWhile ascii_space a;
              negative = (s \<noteq> [] \<and> hd s = 45);
              unsigned = (if s \<noteq> [] \<and> (hd s = 43 \<or> hd s = 45) then tl s else s);
              body = takeWhile (\<lambda>c. digit c \<or> c = 95) unsigned;
              rest = dropWhile (\<lambda>c. digit c \<or> c = 95) unsigned;
              digits = filter digit body
          in if numeral_body body \<and> length digits \<le> 4300 \<and> dropWhile ascii_space rest = []
             then Some (negative, foldl (\<lambda>v d. 10 * v + (d - 48)) 0 digits)
             else None)"

text \<open>
  The group \<^verbatim>\<open>\g<name>\<close> names. The patterns of the script have no named group, so a
  name that is an identifier is an error; an identifier is never a numeral, so the
  name is a group exactly when it is a numeral that is not negative.
\<close>

definition group_index :: "str \<Rightarrow> nat option" where
  "group_index name =
     (case py_int name of
        None \<Rightarrow> None
      | Some (negative, index) \<Rightarrow> if negative \<and> 0 < index then None else Some index)"

text \<open>
  \<^verbatim>\<open>Tokenizer.getuntil\<close>: the text of the tokens up to the terminator, and the tokens
  after it.
\<close>

fun getuntil :: "nat \<Rightarrow> token list \<Rightarrow> (str \<times> token list) option" where
  "getuntil terminator [] = None"
| "getuntil terminator (t # ts) =
     (if t = Plain terminator then Some ([], ts)
      else map_option (\<lambda>(name, rest). (token_text t @ name, rest)) (getuntil terminator ts))"

lemma getuntil_shorter: "getuntil terminator ts = Some (name, rest) \<Longrightarrow> length rest < length ts"
  by (induction ts arbitrary: name) (auto split: if_splits)

text \<open>The next token, when it is a single character of the given class.\<close>

fun next_in :: "(nat \<Rightarrow> bool) \<Rightarrow> token list \<Rightarrow> nat option" where
  "next_in P (Plain c # ts) = (if P c then Some c else None)"
| "next_in P ts = None"

text \<open>
  A compiled template is a list of literal texts and group references. Both patterns
  used with a template have one group (\<^verbatim>\<open>state.groups\<close>).
\<close>

datatype item = Chars str | Group nat

definition pattern_groups :: nat where
  "pattern_groups = 1"

definition addgroup :: "nat \<Rightarrow> item list option \<Rightarrow> item list option" where
  "addgroup index rest =
     (if index > pattern_groups then None else map_option ((#) (Group index)) rest)"

definition lappend :: "str \<Rightarrow> item list option \<Rightarrow> item list option" where
  "lappend s rest = map_option ((#) (Chars s)) rest"

text \<open>The escapes of a template that stand for one character (\<^verbatim>\<open>ESCAPES\<close>).\<close>

definition escape_char :: "nat \<Rightarrow> nat option" where
  "escape_char c =
     map_of [(97, 7), (98, 8), (102, 12), (110, 10), (114, 13), (116, 9), (118, 11), (92, 92)] c"

text \<open>
  \<^verbatim>\<open>parse_template\<close>: \<^verbatim>\<open>\g<name>\<close> is a group; \<^verbatim>\<open>\0\<close> with up to two octal digits is
  a character; a backslash with another digit is a group of one or two digits, or a
  character when three octal digits follow each other; the escapes of \<^verbatim>\<open>ESCAPES\<close> are
  their character; a backslash with any other ASCII letter is an error; a backslash
  with anything else stays as it is. \<open>None\<close> is the exception.
\<close>

function parse_template :: "token list \<Rightarrow> item list option" where
  "parse_template [] = Some []"
| "parse_template (Plain c # ts) = lappend [c] (parse_template ts)"
| "parse_template (Escaped c # ts) =
     (if c = 103 then
        (if next_in (\<lambda>x. x = 60) ts = None then None
         else
           case getuntil 62 (tl ts) of
             None \<Rightarrow> None
           | Some (name, rest) \<Rightarrow>
               (case (if name = [] then None else group_index name) of
                  None \<Rightarrow> None
                | Some index \<Rightarrow> addgroup index (parse_template rest)))
      else if c = 48 then
        (case next_in octdigit ts of
           None \<Rightarrow> lappend [0] (parse_template ts)
         | Some d1 \<Rightarrow>
             (case next_in octdigit (tl ts) of
                None \<Rightarrow> lappend [(d1 - 48) mod 256] (parse_template (tl ts))
              | Some d2 \<Rightarrow>
                  lappend [(8 * (d1 - 48) + (d2 - 48)) mod 256] (parse_template (tl (tl ts)))))
      else if digit c then
        (case next_in digit ts of
           None \<Rightarrow> addgroup (c - 48) (parse_template ts)
         | Some d1 \<Rightarrow>
             (case (if octdigit c \<and> octdigit d1 then next_in octdigit (tl ts) else None) of
                Some d2 \<Rightarrow>
                  (if 64 * (c - 48) + 8 * (d1 - 48) + (d2 - 48) > 255 then None
                   else lappend [64 * (c - 48) + 8 * (d1 - 48) + (d2 - 48)]
                          (parse_template (tl (tl ts))))
              | None \<Rightarrow> addgroup (10 * (c - 48) + (d1 - 48)) (parse_template (tl ts))))
      else
        (case escape_char c of
           Some x \<Rightarrow> lappend [x] (parse_template ts)
         | None \<Rightarrow>
             if ascii_letter c then None else lappend [backslash, c] (parse_template ts)))"
  by pat_completeness auto
termination
  by (relation "measure length") (auto dest: getuntil_shorter intro: less_SucI)

definition compile_template :: "str \<Rightarrow> item list option" where
  "compile_template template =
     (case tokenize template of None \<Rightarrow> None | Some ts \<Rightarrow> parse_template ts)"

text \<open>
  \<^verbatim>\<open>expand_template\<close>: the literal texts with the groups of the match in their places.
  Each pattern used with a template is one group, so group 0 and group 1 are both the
  matched text.
\<close>

fun item_text :: "str \<Rightarrow> item \<Rightarrow> str" where
  "item_text g (Chars s) = s"
| "item_text g (Group n) = g"

definition expand_template :: "item list \<Rightarrow> str \<Rightarrow> str" where
  "expand_template template g = concat (map (item_text g) template)"

section \<open>The content transformer (lines 45 to 82)\<close>

text \<open>
  The statement the script inserts: \<^verbatim>\<open>import { prisma } from '<rel_path>';\<close>.
\<close>

definition singleton_import :: "str \<Rightarrow> str" where
  "singleton_import rel_path =
     lit ''import { prisma } from '' @ [quote] @ rel_path @ [quote] @ lit '';''"

text \<open>
  The templates of lines 49 and 57, as the formatted raw strings give them:
  \<^verbatim>\<open>\1\nimport { prisma } from '<rel_path>';\<close> and
  \<^verbatim>\<open>\1import { prisma } from '<rel_path>';\n\<close>, where \<^verbatim>\<open>\1\<close> and \<^verbatim>\<open>\n\<close> are each a backslash
  and a character.
\<close>

definition client_import_template :: "str \<Rightarrow> str" where
  "client_import_template rel_path = [backslash, 49, backslash, 110] @ singleton_import rel_path"

definition first_import_template :: "str \<Rightarrow> str" where
  "first_import_template rel_path = [backslash, 49] @ singleton_import rel_path @ [backslash, 110]"

text \<open>
  Lines 45 to 60. The first branch replaces the first \<^verbatim>\<open>from '@prisma/client';\<close>, the
  second the first match of \<^verbatim>\<open>import .*?;\n\<close>, each by its template. A template that
  does not compile raises, whether the pattern matches or not.
\<close>

definition insert_import :: "str \<Rightarrow> str \<Rightarrow> error + str" where
  "insert_import rel_path content =
     (if sublist client_import content then
        (case compile_template (client_import_template rel_path) of
           None \<Rightarrow> Inl TemplateError
         | Some template \<Rightarrow>
             Inr (sub_first match_client_import (expand_template template) content))
      else if sublist (lit ''import {'') content then
        (case compile_template (first_import_template rel_path) of
           None \<Rightarrow> Inl TemplateError
         | Some template \<Rightarrow>
             Inr (sub_first match_import (expand_template template) content))
      else Inr content)"

text \<open>Lines 62 to 68, 70 to 75 and 77 to 82.\<close>

definition remove_decl_lines :: "str \<Rightarrow> str" where
  "remove_decl_lines content = remove_decls True content"

definition rewrite_field :: "str \<Rightarrow> str" where
  "rewrite_field content = sub_literal field_assign singleton_assign content"

definition rewrite_fallback :: "str \<Rightarrow> str" where
  "rewrite_fallback content = sub_literal fallback_assign singleton_assign content"

definition transform_content :: "str \<Rightarrow> str \<Rightarrow> error + str" where
  "transform_content rel_path content =
     (case insert_import rel_path content of
        Inl e \<Rightarrow> Inl e
      | Inr c \<Rightarrow> Inr (rewrite_fallback (rewrite_field (remove_decl_lines c))))"

section \<open>The file processor (lines 28 to 97)\<close>

text \<open>The skip test of line 36.\<close>

definition already_singleton :: "str \<Rightarrow> bool" where
  "already_singleton content =
     (sublist (lit ''from '../lib/prisma'' @ [quote]) content
      \<or> sublist (lit ''from '../../lib/prisma'' @ [quote]) content
      \<or> sublist (lit ''from '../../../lib/prisma'' @ [quote]) content)"

definition backup_path :: "str \<Rightarrow> str" where
  "backup_path filepath = filepath @ lit ''.bak''"

text \<open>
  \<^verbatim>\<open>replace_prisma_in_file(filepath)\<close> returns the new world and either the exception that
  ends the run or the Boolean the function returns. \<open>content\<close> is the text as read,
  which is also what line 87 writes to the backup.
\<close>

definition replace_prisma_in_file :: "world \<Rightarrow> str \<Rightarrow> world \<times> (error + bool)" where
  "replace_prisma_in_file w filepath =
     (let w1 = emit (Print (Processing filepath)) w in
      case read_text w1 filepath of
        None \<Rightarrow> (w1, Inl FileNotFoundError)
      | Some content \<Rightarrow>
          let w2 = emit (ReadFile filepath) w1 in
          if already_singleton content then (emit (Print AlreadySingleton) w2, Inr False)
          else
            case calculate_relative_path (cwd w2) filepath default_to_file of
              Inl e \<Rightarrow> (w2, Inl e)
            | Inr rel_path \<Rightarrow>
                (case transform_content rel_path content of
                   Inl e \<Rightarrow> (w2, Inl e)
                 | Inr new_content \<Rightarrow>
                     if new_content \<noteq> content then
                       (case write_file (backup_path filepath) content w2 of
                          Inl e \<Rightarrow> (w2, Inl e)
                        | Inr w3 \<Rightarrow>
                            (case write_file filepath new_content w3 of
                               Inl e \<Rightarrow> (w3, Inl e)
                             | Inr w4 \<Rightarrow> (emit (Print Updated) w4, Inr True)))
                     else (emit (Print NoChanges) w2, Inr False)))"

section \<open>Discovery and the run (lines 99 to 129)\<close>

definition root_dir :: str where
  "root_dir = lit ''apps/api-gateway/src''"

definition excluded_markers :: "str list" where
  "excluded_markers =
     [lit ''test'', lit ''mock'', lit ''__fixtures__'', lit ''.spec.'', lit ''.test.'']"

definition is_excluded :: "str \<Rightarrow> bool" where
  "is_excluded p = list_ex (\<lambda>x. sublist x p) excluded_markers"

text \<open>
  \<^verbatim>\<open>root.rglob('*.ts')\<close>: the entries below the root whose name matches \<^verbatim>\<open>*.ts\<close>, that is
  whose path ends with \<^verbatim>\<open>.ts\<close>.
\<close>

definition rglob_ts :: "str list \<Rightarrow> str list" where
  "rglob_ts entries = filter (\<lambda>p. suffix (lit ''.ts'') p) entries"

text \<open>
  The loop of lines 109 to 119. A file that cannot be read is reported and left out.
\<close>

fun discover :: "world \<Rightarrow> str list \<Rightarrow> str list \<Rightarrow> world \<times> str list" where
  "discover w files_to_process [] = (w, files_to_process)"
| "discover w files_to_process (ts_file # rest) =
     (if is_excluded ts_file then discover w files_to_process rest
      else
        case read_text w ts_file of
          None \<Rightarrow> discover (emit (Print (ErrorReading ts_file)) w) files_to_process rest
        | Some content \<Rightarrow>
            discover (emit (ReadFile ts_file) w)
              (if sublist construction content then files_to_process @ [ts_file]
               else files_to_process)
              rest)"

text \<open>The loop of lines 123 to 126; an exception ends it.\<close>

fun process_all :: "world \<Rightarrow> nat \<Rightarrow> str list \<Rightarrow> world \<times> (error + nat)" where
  "process_all w updated_count [] = (w, Inr updated_count)"
| "process_all w updated_count (filepath # rest) =
     (case replace_prisma_in_file w filepath of
        (w', Inl e) \<Rightarrow> (w', Inl e)
      | (w', Inr changed) \<Rightarrow>
          process_all w' (if changed then updated_count + 1 else updated_count) rest)"

text \<open>
  How the process ends: \<open>Exit n\<close> is the exit status \<open>n\<close>, \<open>Uncaught e\<close> an exception
  that reaches the top (a traceback and the exit status 1).
\<close>

datatype ending = Exit nat | Uncaught error

definition main :: "world \<Rightarrow> world \<times> ending" where
  "main w =
     (case root_entries w of
        None \<Rightarrow> (emit (Print (DirNotFound root_dir)) w, Exit 1)
      | Some entries \<Rightarrow>
          let (w1, files_to_process) = discover w [] (rglob_ts entries);
              w2 = emit (Print (Found (length files_to_process))) w1
          in case process_all w2 0 files_to_process of
               (w3, Inl e) \<Rightarrow> (w3, Uncaught e)
             | (w3, Inr updated_count) \<Rightarrow>
                 (emit (Print BackupNote)
                    (emit (Print (Complete updated_count (length files_to_process))) w3),
                  Exit 0))"

section \<open>Reading in text mode\<close>

lemma universal_newlines_id: "cr \<notin> set t \<Longrightarrow> universal_newlines t = t"
  by (induction t rule: universal_newlines.induct) auto

lemma prefix_universal_newlines:
  "nl \<notin> set p \<Longrightarrow> cr \<notin> set p \<Longrightarrow> prefix p (universal_newlines t) = prefix p t"
proof (induction t arbitrary: p rule: universal_newlines.induct)
  case 1
  then show ?case by simp
next
  case (2 c)
  then show ?case by (cases p) auto
next
  case (3 c d cs)
  then show ?case by (cases p) auto
qed

lemma sublist_universal_newlines:
  assumes "nl \<notin> set p" and "cr \<notin> set p"
  shows "sublist p (universal_newlines t) = sublist p t"
proof (induction t rule: universal_newlines.induct)
  case 1
  then show ?case by simp
next
  case (2 c)
  show ?case
    using assms by (cases p) (auto simp: sublist_Cons_right)
next
  case (3 c d cs)
  have p: "prefix p (universal_newlines (c # d # cs)) = prefix p (c # d # cs)"
    by (rule prefix_universal_newlines [OF assms])
  have q: "prefix p (universal_newlines (d # cs)) = prefix p (d # cs)"
    by (rule prefix_universal_newlines [OF assms])
  show ?case
  proof (cases "c = cr")
    case False
    with 3 p show ?thesis
      by (simp add: sublist_Cons_right)
  next
    case True
    show ?thesis
    proof (cases "d = nl")
      case dn: True
      with True 3 assms show ?thesis
        by (cases p) (auto simp: sublist_Cons_right)
    next
      case dn: False
      with True 3 assms q show ?thesis
        by (cases p) (auto simp: sublist_Cons_right)
    qed
  qed
qed

section \<open>Templates without a backslash in the relative path\<close>

lemma tokenize_plain_char:
  "c \<noteq> backslash \<Longrightarrow> tokenize (c # u) = map_option ((#) (Plain c)) (tokenize u)"
  by (cases u) simp_all

lemma tokenize_escaped: "tokenize (backslash # x # u) = map_option ((#) (Escaped x)) (tokenize u)"
  by simp

lemma tokenize_plain:
  "backslash \<notin> set s \<Longrightarrow> tokenize (s @ u) = map_option ((@) (map Plain s)) (tokenize u)"
proof (induction s)
  case Nil
  show ?case
    by (simp add: option.map_ident)
next
  case (Cons c s)
  then show ?case
    by (simp add: tokenize_plain_char option.map_comp comp_def del: tokenize.simps)
qed

lemma parse_plain:
  "parse_template (map Plain s @ ts)
     = map_option ((@) (map (\<lambda>c. Chars [c]) s)) (parse_template ts)"
  by (induction s) (simp_all add: lappend_def option.map_ident option.map_comp comp_def)

lemma expand_chars: "expand_template (map (\<lambda>c. Chars [c]) s @ rest) g = s @ expand_template rest g"
  by (induction s) (simp_all add: expand_template_def)

lemma singleton_import_plain:
  "backslash \<notin> set rel_path \<Longrightarrow> backslash \<notin> set (singleton_import rel_path)"
  by (simp add: singleton_import_def lit_def)

lemma singleton_import_head: "\<exists>rest. singleton_import rel_path = 105 # rest"
  by (simp add: singleton_import_def lit_def)

lemma compile_client_import_template:
  assumes "backslash \<notin> set rel_path"
  shows "compile_template (client_import_template rel_path)
           = Some (Group 1 # Chars [nl] # map (\<lambda>c. Chars [c]) (singleton_import rel_path))"
proof -
  have t: "tokenize (client_import_template rel_path)
             = Some (Escaped 49 # Escaped 110 # map Plain (singleton_import rel_path))"
    using tokenize_plain [OF singleton_import_plain [OF assms], of "[]"]
    by (simp add: client_import_template_def del: tokenize.simps(3) add: tokenize_escaped)
  have p: "parse_template (map Plain (singleton_import rel_path))
             = Some (map (\<lambda>c. Chars [c]) (singleton_import rel_path))"
    using parse_plain [of "singleton_import rel_path" "[]"] by simp
  show ?thesis
    by (simp add: compile_template_def t p digit_def escape_char_def addgroup_def
          lappend_def pattern_groups_def)
qed

lemma compile_first_import_template:
  assumes "backslash \<notin> set rel_path"
  shows "compile_template (first_import_template rel_path)
           = Some (Group 1 # map (\<lambda>c. Chars [c]) (singleton_import rel_path) @ [Chars [nl]])"
proof -
  have "tokenize (singleton_import rel_path @ [backslash, 110])
          = Some (map Plain (singleton_import rel_path) @ [Escaped 110])"
    using tokenize_plain [OF singleton_import_plain [OF assms], of "[backslash, 110]"]
    by simp
  then have t: "tokenize (first_import_template rel_path)
             = Some (Escaped 49 # map Plain (singleton_import rel_path) @ [Escaped 110])"
    by (simp add: first_import_template_def del: tokenize.simps(3) add: tokenize_escaped)
  have p: "parse_template (map Plain (singleton_import rel_path) @ [Escaped 110])
             = Some (map (\<lambda>c. Chars [c]) (singleton_import rel_path) @ [Chars [nl]])"
    by (simp add: parse_plain escape_char_def lappend_def digit_def)
  obtain rest where h: "singleton_import rel_path = 105 # rest"
    using singleton_import_head by blast
  have n: "next_in digit (map Plain (singleton_import rel_path) @ [Escaped 110]) = None"
    by (simp add: h digit_def)
  show ?thesis
    by (simp add: compile_template_def t p n digit_def addgroup_def pattern_groups_def
          del: parse_template.simps(2))
qed

lemma insert_import_plain:
  assumes "backslash \<notin> set rel_path"
  shows "insert_import rel_path content =
     (if sublist client_import content then
        Inr (sub_first match_client_import (\<lambda>g. g @ [nl] @ singleton_import rel_path) content)
      else if sublist (lit ''import {'') content then
        Inr (sub_first match_import (\<lambda>g. g @ singleton_import rel_path @ [nl]) content)
      else Inr content)"
proof -
  have a: "expand_template
             (Group 1 # Chars [nl] # map (\<lambda>c. Chars [c]) (singleton_import rel_path))
           = (\<lambda>g. g @ [nl] @ singleton_import rel_path)"
  proof
    fix g
    have "expand_template (Group 1 # Chars [nl] # map (\<lambda>c. Chars [c]) (singleton_import rel_path)) g
            = g @ [nl] @ expand_template (map (\<lambda>c. Chars [c]) (singleton_import rel_path) @ []) g"
      by (simp add: expand_template_def)
    also have "\<dots> = g @ [nl] @ singleton_import rel_path"
      by (simp only: expand_chars) (simp add: expand_template_def)
    finally show "expand_template
             (Group 1 # Chars [nl] # map (\<lambda>c. Chars [c]) (singleton_import rel_path)) g
           = g @ [nl] @ singleton_import rel_path" .
  qed
  have b: "expand_template
             (Group 1 # map (\<lambda>c. Chars [c]) (singleton_import rel_path) @ [Chars [nl]])
           = (\<lambda>g. g @ singleton_import rel_path @ [nl])"
  proof
    fix g
    have "expand_template (Group 1 # map (\<lambda>c. Chars [c]) (singleton_import rel_path) @ [Chars [nl]]) g
            = g @ expand_template (map (\<lambda>c. Chars [c]) (singleton_import rel_path) @ [Chars [nl]]) g"
      by (simp add: expand_template_def)
    also have "\<dots> = g @ singleton_import rel_path @ [nl]"
      by (simp only: expand_chars) (simp add: expand_template_def)
    finally show "expand_template
             (Group 1 # map (\<lambda>c. Chars [c]) (singleton_import rel_path) @ [Chars [nl]]) g
           = g @ singleton_import rel_path @ [nl]" .
  qed
  show ?thesis
    unfolding insert_import_def compile_client_import_template [OF assms]
      compile_first_import_template [OF assms]
    by (simp only: option.case a b)
qed

text \<open>A relative path with an escape: the template is compiled, and the file gets the character.\<close>

lemma escaped_newline_in_template:
  "insert_import [backslash, 110] client_import
     = Inr (client_import @ [nl] @ lit ''import { prisma } from '' @ [quote, nl, quote] @ lit '';'')"
  by (simp add: insert_import_def compile_template_def client_import_template_def
        singleton_import_def client_import_def lit_def sublist_code match_client_import_def
        lit_then_def expand_template_def digit_def escape_char_def addgroup_def lappend_def
        pattern_groups_def)

section \<open>Examples used below\<close>

definition foo_path :: str where
  "foo_path = lit ''apps/api-gateway/src/services/foo.ts''"

definition migrated_text :: str where
  "migrated_text =
     lit ''import { prisma } from '../lib/prisma'' @ [quote] @ lit '';'' @ [nl]
     @ lit ''const db = new PrismaClient();'' @ [nl]"

text \<open>A world with one file below the root, in which every path can be written.\<close>

definition world_of :: "str \<Rightarrow> str \<Rightarrow> world" where
  "world_of p content =
     \<lparr>cwd = lit ''/work'', root_entries = Some [p], files = [p \<mapsto> content],
      writable = (\<lambda>q. True), trace = []\<rparr>"

definition unmigrated_text :: str where
  "unmigrated_text =
     lit ''import { PrismaClient } from '@prisma/client';'' @ [nl]
     @ lit ''const db = new PrismaClient();'' @ [nl]"

definition updated_text :: str where
  "updated_text =
     lit ''import { PrismaClient } from '@prisma/client';'' @ [nl]
     @ lit ''import { prisma } from '../lib/prisma'' @ [quote] @ lit '';'' @ [nl]
     @ lit ''const db = new PrismaClient();'' @ [nl]"

text \<open>The number of places of a text where a pattern occurs.\<close>

fun occurrences :: "'a list \<Rightarrow> 'a list \<Rightarrow> nat" where
  "occurrences p [] = (if p = [] then 1 else 0)"
| "occurrences p (c # cs) = (if prefix p (c # cs) then 1 else 0) + occurrences p cs"

text \<open>The definitions a concrete text is evaluated with.\<close>

lemmas eval_defs = transform_content_def insert_import_plain client_import_def
  match_client_import_def match_import_def lit_then_def singleton_import_def
  remove_decl_lines_def rewrite_field_def rewrite_fallback_def field_assign_def
  fallback_assign_def singleton_assign_def match_decl_def prisma_decl_def is_space_def
  construction_def already_singleton_def lit_def sublist_code

lemma foo_rel_path:
  "calculate_relative_path (lit ''/work'') foo_path default_to_file = Inr (lit ''../lib/prisma'')"
  by code_simp

lemma unmigrated_not_singleton: "\<not> already_singleton unmigrated_text"
  by (simp add: eval_defs unmigrated_text_def)

lemma unmigrated_transform:
  "transform_content (lit ''../lib/prisma'') unmigrated_text = Inr updated_text"
  by (simp add: eval_defs unmigrated_text_def updated_text_def)

lemma updated_differs: "updated_text \<noteq> unmigrated_text"
  by (simp add: unmigrated_text_def updated_text_def lit_def)

lemma unmigrated_no_cr: "cr \<notin> set unmigrated_text"
  by (simp add: unmigrated_text_def lit_def)

lemma backup_path_differs: "backup_path p \<noteq> p"
  by (simp add: backup_path_def lit_def)

section \<open>What a call of the file processor does\<close>


lemma already_singleton_read: "already_singleton (universal_newlines t) = already_singleton t"
  by (simp add: already_singleton_def sublist_universal_newlines lit_def)

text \<open>
  The three ways a call ends for a file whose transformed text differs from the text
  read: both writes succeed; the backup is written and the file cannot be opened; the
  backup cannot be opened.
\<close>

lemma replace_changed:
  assumes "read_text w p = Some content"
    and "\<not> already_singleton content"
    and "calculate_relative_path (cwd w) p default_to_file = Inr rel_path"
    and "transform_content rel_path content = Inr new_content"
    and "new_content \<noteq> content"
  shows "replace_prisma_in_file w p =
     (if writable w (backup_path p) then
        (if writable w p then
           (w\<lparr>files := (files w)(backup_path p \<mapsto> content, p \<mapsto> new_content),
              trace := trace w @ [Print (Processing p), ReadFile p,
                                  WriteFile (backup_path p) content,
                                  WriteFile p new_content, Print Updated]\<rparr>,
            Inr True)
         else
           (w\<lparr>files := (files w)(backup_path p \<mapsto> content),
              trace := trace w @ [Print (Processing p), ReadFile p,
                                  WriteFile (backup_path p) content]\<rparr>,
            Inl PermissionError))
      else (w\<lparr>trace := trace w @ [Print (Processing p), ReadFile p]\<rparr>, Inl PermissionError))"
proof -
  have "read_text (emit (Print (Processing p)) w) p = Some content"
    using assms(1) by (simp add: read_text_def emit_def)
  then show ?thesis
    using assms(2-5) backup_path_differs [of p]
    by (simp add: replace_prisma_in_file_def Let_def)
       (simp add: emit_def write_file_def)
qed

section \<open>The skip test and the backup\<close>

text \<open>
  C4. A file whose text contains \<^verbatim>\<open>from '../lib/prisma'\<close>, \<^verbatim>\<open>from '../../lib/prisma'\<close> or
  \<^verbatim>\<open>from '../../../lib/prisma'\<close> is left as it is: processing it only prints the two
  progress lines and reads the file, so no file changes, no backup is written, and the
  function returns \<^verbatim>\<open>False\<close>, which the run does not count as an update.
\<close>

theorem skip_leaves_file_untouched:
  assumes "files w p = Some content"
    and "sublist (lit ''from '../lib/prisma'' @ [quote]) content
         \<or> sublist (lit ''from '../../lib/prisma'' @ [quote]) content
         \<or> sublist (lit ''from '../../../lib/prisma'' @ [quote]) content"
  shows "replace_prisma_in_file w p =
           (w\<lparr>trace := trace w @ [Print (Processing p), ReadFile p, Print AlreadySingleton]\<rparr>,
            Inr False)"
proof -
  from assms(2) have "already_singleton content"
    by (simp add: already_singleton_def)
  then have "already_singleton (universal_newlines content)"
    by (simp add: already_singleton_read)
  moreover have "read_text (emit (Print (Processing p)) w) p = Some (universal_newlines content)"
    using assms(1) by (simp add: read_text_def emit_def)
  ultimately show ?thesis
    by (simp add: replace_prisma_in_file_def Let_def) (simp add: emit_def)
qed

theorem skip_leaves_file_untouched_witness:
  "files (world_of foo_path migrated_text) foo_path = Some migrated_text
   \<and> sublist (lit ''from '../lib/prisma'' @ [quote]) migrated_text
   \<and> replace_prisma_in_file (world_of foo_path migrated_text) foo_path =
       ((world_of foo_path migrated_text)
          \<lparr>trace := trace (world_of foo_path migrated_text)
             @ [Print (Processing foo_path), ReadFile foo_path, Print AlreadySingleton]\<rparr>,
        Inr False)"
proof -
  have f: "files (world_of foo_path migrated_text) foo_path = Some migrated_text"
    by (simp add: world_of_def)
  have s: "sublist (lit ''from '../lib/prisma'' @ [quote]) migrated_text"
    by (simp add: migrated_text_def lit_def sublist_Cons_right)
  from skip_leaves_file_untouched [OF f disjI1, OF s] f s show ?thesis
    by simp
qed





text \<open>
  A file with carriage returns: the backup holds the text as read, with the line ends
  translated, and not the content of the file.
\<close>

definition crlf_text :: str where
  "crlf_text =
     lit ''import { PrismaClient } from '@prisma/client';'' @ [cr, nl]
     @ lit ''const db = new PrismaClient();'' @ [cr, nl]"

lemma crlf_backup_example:
  "files (fst (replace_prisma_in_file (world_of foo_path crlf_text) foo_path))
     (backup_path foo_path) = Some unmigrated_text
   \<and> files (fst (replace_prisma_in_file (world_of foo_path crlf_text) foo_path)) foo_path
       = Some updated_text
   \<and> unmigrated_text \<noteq> crlf_text"
proof -
  let ?w = "world_of foo_path crlf_text"
  have "universal_newlines crlf_text = unmigrated_text"
    by (simp add: crlf_text_def unmigrated_text_def lit_def)
  then have rt: "read_text ?w foo_path = Some unmigrated_text"
    by (simp add: read_text_def world_of_def)
  have r: "calculate_relative_path (cwd ?w) foo_path default_to_file = Inr (lit ''../lib/prisma'')"
    using foo_rel_path by (simp add: world_of_def)
  have wr: "writable ?w q" for q
    by (simp add: world_of_def)
  have "unmigrated_text \<noteq> crlf_text"
    by (simp add: crlf_text_def unmigrated_text_def lit_def)
  then show ?thesis
    using replace_changed [OF rt unmigrated_not_singleton r unmigrated_transform updated_differs]
      wr backup_path_differs [of foo_path]
    by simp
qed

section \<open>An update that migrates nothing\<close>

text \<open>
  C9. The file \<^verbatim>\<open>apps/api-gateway/src/services/foo.ts\<close> imports \<^verbatim>\<open>@prisma/client\<close> and its
  only construction is \<^verbatim>\<open>const db = new PrismaClient();\<close>. The run inserts the singleton
  import, so the text changes, the backup is written, the file is counted as updated
  (one of one), and the construction \<^verbatim>\<open>new PrismaClient()\<close> still occurs once in the
  output, as in the input.
\<close>

theorem update_without_migration:
  "snd (replace_prisma_in_file (world_of foo_path unmigrated_text) foo_path) = Inr True
   \<and> files (fst (replace_prisma_in_file (world_of foo_path unmigrated_text) foo_path)) foo_path
       = Some updated_text
   \<and> files (fst (replace_prisma_in_file (world_of foo_path unmigrated_text) foo_path))
         (backup_path foo_path) = Some unmigrated_text
   \<and> updated_text \<noteq> unmigrated_text
   \<and> sublist (singleton_import (lit ''../lib/prisma'')) updated_text
   \<and> occurrences construction unmigrated_text = 1
   \<and> occurrences construction updated_text = 1
   \<and> snd (main (world_of foo_path unmigrated_text)) = Exit 0
   \<and> Print (Complete 1 1) \<in> set (trace (fst (main (world_of foo_path unmigrated_text))))"
proof -
  let ?w = "world_of foo_path unmigrated_text"
  have rt: "read_text (?w\<lparr>trace := tr\<rparr>) foo_path = Some unmigrated_text" for tr
    by (simp add: read_text_def world_of_def universal_newlines_id [OF unmigrated_no_cr])
  have rt0: "read_text ?w foo_path = Some unmigrated_text"
    by (simp add: read_text_def world_of_def universal_newlines_id [OF unmigrated_no_cr])
  have r: "calculate_relative_path (cwd (?w\<lparr>trace := tr\<rparr>)) foo_path default_to_file
             = Inr (lit ''../lib/prisma'')" for tr
    using foo_rel_path by (simp add: world_of_def)
  have r0: "calculate_relative_path (cwd ?w) foo_path default_to_file
             = Inr (lit ''../lib/prisma'')"
    using foo_rel_path by (simp add: world_of_def)
  have wr: "writable (?w\<lparr>trace := tr\<rparr>) q" and wr0: "writable ?w q" for tr q
    by (simp_all add: world_of_def)
  have t: "trace ?w = []"
    by (simp add: world_of_def)
  have root: "root_entries ?w = Some [foo_path]"
    by (simp add: world_of_def)
  have step: "replace_prisma_in_file (?w\<lparr>trace := tr\<rparr>) foo_path =
      (?w\<lparr>files := (files ?w)(backup_path foo_path \<mapsto> unmigrated_text,
                              foo_path \<mapsto> updated_text),
          trace := tr @ [Print (Processing foo_path), ReadFile foo_path,
                         WriteFile (backup_path foo_path) unmigrated_text,
                         WriteFile foo_path updated_text, Print Updated]\<rparr>,
       Inr True)" for tr
    using replace_changed [OF rt [of tr] unmigrated_not_singleton r [of tr]
        unmigrated_transform updated_differs] wr [of tr]
    by simp
  have step0: "replace_prisma_in_file ?w foo_path =
      (?w\<lparr>files := (files ?w)(backup_path foo_path \<mapsto> unmigrated_text,
                              foo_path \<mapsto> updated_text),
          trace := [Print (Processing foo_path), ReadFile foo_path,
                    WriteFile (backup_path foo_path) unmigrated_text,
                    WriteFile foo_path updated_text, Print Updated]\<rparr>,
       Inr True)"
    using replace_changed [OF rt0 unmigrated_not_singleton r0
        unmigrated_transform updated_differs] wr0 t
    by simp
  have excl: "\<not> is_excluded foo_path"
    by (simp add: is_excluded_def excluded_markers_def foo_path_def lit_def sublist_code)
  have ts: "suffix (lit ''.ts'') foo_path"
    by (simp add: foo_path_def lit_def suffix_to_prefix)
  have con: "sublist construction unmigrated_text"
    by (simp add: eval_defs unmigrated_text_def)
  have disc: "discover ?w [] (rglob_ts [foo_path]) = (?w\<lparr>trace := [ReadFile foo_path]\<rparr>, [foo_path])"
    using excl ts con rt0 t by (simp add: rglob_ts_def emit_def)
  have m: "main ?w =
      (?w\<lparr>files := (files ?w)(backup_path foo_path \<mapsto> unmigrated_text,
                              foo_path \<mapsto> updated_text),
          trace := [ReadFile foo_path, Print (Found 1), Print (Processing foo_path),
                    ReadFile foo_path, WriteFile (backup_path foo_path) unmigrated_text,
                    WriteFile foo_path updated_text, Print Updated,
                    Print (Complete 1 1), Print BackupNote]\<rparr>,
       Exit 0)"
    using step [of "[ReadFile foo_path, Print (Found 1)]"]
    by (simp add: main_def root disc emit_def)
  have imp: "sublist (singleton_import (lit ''../lib/prisma'')) updated_text"
    by (simp add: eval_defs updated_text_def)
  have o1: "occurrences construction unmigrated_text = 1"
    by (simp add: construction_def unmigrated_text_def lit_def)
  have o2: "occurrences construction updated_text = 1"
    by (simp add: construction_def updated_text_def lit_def)
  show ?thesis
    using backup_path_differs [of foo_path]
    by (simp add: step0 m updated_differs imp o1 o2)
qed

section \<open>The missing root\<close>

text \<open>The diagnostic of line 104 among the events of a trace.\<close>

fun is_dir_error :: "event \<Rightarrow> bool" where
  "is_dir_error (Print (DirNotFound d)) = True"
| "is_dir_error _ = False"

lemma replace_no_dir_error:
  "filter is_dir_error (trace (fst (replace_prisma_in_file w q))) = filter is_dir_error (trace w)"
  by (simp add: replace_prisma_in_file_def emit_def write_file_def Let_def
           split: option.splits sum.splits)

lemma process_all_no_dir_error:
  "filter is_dir_error (trace (fst (process_all w n qs))) = filter is_dir_error (trace w)"
proof (induction qs arbitrary: w n)
  case Nil
  then show ?case by simp
next
  case (Cons q qs)
  obtain w' r where step: "replace_prisma_in_file w q = (w', r)"
    by (cases "replace_prisma_in_file w q")
  then have w': "filter is_dir_error (trace w') = filter is_dir_error (trace w)"
    using replace_no_dir_error [of w q] by simp
  show ?case
  proof (cases r)
    case (Inl e)
    with step w' show ?thesis by simp
  next
    case (Inr changed)
    with step w' Cons.IH [of w'] show ?thesis by simp
  qed
qed

lemma discover_no_dir_error:
  "filter is_dir_error (trace (fst (discover w acc xs))) = filter is_dir_error (trace w)"
  by (induction xs arbitrary: w acc) (simp_all add: emit_def split: option.splits)

text \<open>
  C8. When the root directory does not exist, the run prints the diagnostic and ends
  with the exit status 1: the diagnostic is the only event, so no file is read, backed
  up or written, and the files are as they were. When the root exists, the run does
  not end through this exit and prints no such diagnostic.
\<close>

theorem missing_root_is_fatal:
  "(root_entries w = None \<longrightarrow>
      main w = (w\<lparr>trace := trace w @ [Print (DirNotFound root_dir)]\<rparr>, Exit 1))
   \<and> (root_entries w \<noteq> None \<longrightarrow>
        snd (main w) \<noteq> Exit 1
        \<and> filter is_dir_error (trace (fst (main w))) = filter is_dir_error (trace w))"
proof (rule conjI; rule impI)
  assume "root_entries w = None"
  then show "main w = (w\<lparr>trace := trace w @ [Print (DirNotFound root_dir)]\<rparr>, Exit 1)"
    by (simp add: main_def emit_def)
next
  assume "root_entries w \<noteq> None"
  then obtain entries where e: "root_entries w = Some entries"
    by blast
  obtain w1 cands where d: "discover w [] (rglob_ts entries) = (w1, cands)"
    by (cases "discover w [] (rglob_ts entries)")
  obtain w3 r where p: "process_all (emit (Print (Found (length cands))) w1) 0 cands = (w3, r)"
    by (cases "process_all (emit (Print (Found (length cands))) w1) 0 cands")
  have t1: "filter is_dir_error (trace w1) = filter is_dir_error (trace w)"
    using discover_no_dir_error [of w "[]" "rglob_ts entries"] d by simp
  have t3: "filter is_dir_error (trace w3) = filter is_dir_error (trace w)"
    using process_all_no_dir_error [of "emit (Print (Found (length cands))) w1" 0 cands] p t1
    by (simp add: emit_def)
  show "snd (main w) \<noteq> Exit 1
        \<and> filter is_dir_error (trace (fst (main w))) = filter is_dir_error (trace w)"
    using e d p t3 by (cases r) (simp_all add: main_def emit_def)
qed

definition rootless_world :: world where
  "rootless_world =
     \<lparr>cwd = lit ''/work'', root_entries = None,
      files = [foo_path \<mapsto> unmigrated_text], writable = (\<lambda>q. True), trace = []\<rparr>"

theorem missing_root_is_fatal_witness:
  "root_entries rootless_world = None
   \<and> main rootless_world =
       (rootless_world\<lparr>trace := [Print (DirNotFound root_dir)]\<rparr>, Exit 1)
   \<and> files (fst (main rootless_world)) = files rootless_world
   \<and> root_entries (world_of foo_path unmigrated_text) \<noteq> None
   \<and> snd (main (world_of foo_path unmigrated_text)) \<noteq> Exit 1
   \<and> filter is_dir_error (trace (fst (main (world_of foo_path unmigrated_text)))) = []"
proof -
  have a: "root_entries rootless_world = None" and t: "trace rootless_world = []"
    by (simp_all add: rootless_world_def)
  have b: "root_entries (world_of foo_path unmigrated_text) \<noteq> None"
    and u: "trace (world_of foo_path unmigrated_text) = []"
    by (simp_all add: world_of_def)
  from missing_root_is_fatal [of rootless_world]
       missing_root_is_fatal [of "world_of foo_path unmigrated_text"]
  show ?thesis
    using a b t u by simp
qed

section \<open>The candidates of a run\<close>

text \<open>
  The test a path passes to become a candidate (lines 111 to 117), and the candidates
  of a run: the list \<^verbatim>\<open>files_to_process\<close> after the loop.
\<close>

definition is_candidate :: "world \<Rightarrow> str \<Rightarrow> bool" where
  "is_candidate w p =
     (\<not> is_excluded p
      \<and> (case files w p of None \<Rightarrow> False | Some content \<Rightarrow> sublist construction content))"

definition candidates :: "world \<Rightarrow> str list" where
  "candidates w =
     (case root_entries w of
        None \<Rightarrow> []
      | Some entries \<Rightarrow> snd (discover w [] (rglob_ts entries)))"

text \<open>The writes to a path among the events of a trace.\<close>

fun writes_to :: "str \<Rightarrow> event \<Rightarrow> bool" where
  "writes_to p (WriteFile q c) = (q = p)"
| "writes_to p _ = False"

lemma construction_read:
  "sublist construction (universal_newlines t) = sublist construction t"
  by (simp add: sublist_universal_newlines construction_def lit_def)

lemma discover_keeps:
  "files (fst (discover w acc xs)) = files w
   \<and> cwd (fst (discover w acc xs)) = cwd w
   \<and> writable (fst (discover w acc xs)) = writable w
   \<and> root_entries (fst (discover w acc xs)) = root_entries w"
  by (induction xs arbitrary: w acc) (simp_all add: emit_def read_text_def split: option.splits)

lemma discover_result:
  "snd (discover w acc xs) = acc @ filter (is_candidate w) xs"
proof (induction xs arbitrary: w acc)
  case Nil
  then show ?case by simp
next
  case (Cons x xs)
  have same: "is_candidate (emit e w) = is_candidate w" for e
    by (rule ext) (simp add: is_candidate_def emit_def)
  show ?case
    by (simp add: Cons.IH same is_candidate_def read_text_def construction_read
             split: option.splits)
qed

lemma candidates_are:
  "root_entries w = Some entries \<Longrightarrow> candidates w = filter (is_candidate w) (rglob_ts entries)"
  by (simp add: candidates_def discover_result)

lemma ts_is_no_backup: "suffix (lit ''.ts'') p \<Longrightarrow> p \<noteq> backup_path q"
proof
  assume ts: "suffix (lit ''.ts'') p" and eq: "p = backup_path q"
  from ts obtain u where "p = u @ lit ''.ts''"
    by (auto simp: suffix_def)
  then have "last p = 115"
    by (simp add: lit_def)
  moreover from eq have "last p = 107"
    by (simp add: backup_path_def lit_def)
  ultimately show False
    by simp
qed

text \<open>A call writes to the path it is given and to its backup path, and nowhere else.\<close>

lemma replace_keeps_other_files:
  "x \<noteq> q \<Longrightarrow> x \<noteq> backup_path q \<Longrightarrow>
     files (fst (replace_prisma_in_file w q)) x = files w x
     \<and> filter (writes_to x) (trace (fst (replace_prisma_in_file w q)))
         = filter (writes_to x) (trace w)"
  by (simp add: replace_prisma_in_file_def emit_def write_file_def Let_def
           split: option.splits sum.splits)

lemma process_all_keeps_other_files:
  "x \<notin> set qs \<Longrightarrow> x \<notin> backup_path ` set qs \<Longrightarrow>
     files (fst (process_all w n qs)) x = files w x
     \<and> filter (writes_to x) (trace (fst (process_all w n qs))) = filter (writes_to x) (trace w)"
proof (induction qs arbitrary: w n)
  case Nil
  then show ?case by simp
next
  case (Cons q qs)
  obtain w' r where step: "replace_prisma_in_file w q = (w', r)"
    by (cases "replace_prisma_in_file w q")
  from Cons.prems have "x \<noteq> q" and "x \<noteq> backup_path q"
    by auto
  then have w': "files w' x = files w x
      \<and> filter (writes_to x) (trace w') = filter (writes_to x) (trace w)"
    using replace_keeps_other_files [of x q w] step by simp
  from Cons.prems have rest: "x \<notin> set qs" "x \<notin> backup_path ` set qs"
    by auto
  show ?case
  proof (cases r)
    case (Inl e)
    with step w' show ?thesis by simp
  next
    case (Inr changed)
    with step w' Cons.IH [OF rest, of w'] show ?thesis by simp
  qed
qed

lemma discover_no_write:
  "filter (writes_to x) (trace (fst (discover w acc xs))) = filter (writes_to x) (trace w)"
  by (induction xs arbitrary: w acc) (simp_all add: emit_def split: option.splits)

lemma main_keeps_other_files:
  assumes "p \<notin> set (candidates w)" and "suffix (lit ''.ts'') p"
  shows "files (fst (main w)) p = files w p
         \<and> filter (writes_to p) (trace (fst (main w))) = filter (writes_to p) (trace w)"
proof (cases "root_entries w")
  case None
  then show ?thesis
    by (simp add: main_def emit_def)
next
  case (Some entries)
  obtain w1 cands where d: "discover w [] (rglob_ts entries) = (w1, cands)"
    by (cases "discover w [] (rglob_ts entries)")
  then have c: "cands = candidates w" and f1: "files w1 = files w"
    and t1: "filter (writes_to p) (trace w1) = filter (writes_to p) (trace w)"
    using Some discover_keeps [of w "[]" "rglob_ts entries"]
      discover_no_write [of p w "[]" "rglob_ts entries"]
    by (simp_all add: candidates_def)
  obtain w3 r where pr: "process_all (emit (Print (Found (length cands))) w1) 0 cands = (w3, r)"
    by (cases "process_all (emit (Print (Found (length cands))) w1) 0 cands")
  have nb: "p \<notin> backup_path ` set cands"
    using ts_is_no_backup [OF assms(2)] by blast
  have "files w3 p = files w p
        \<and> filter (writes_to p) (trace w3) = filter (writes_to p) (trace w)"
    using process_all_keeps_other_files [of p cands "emit (Print (Found (length cands))) w1" 0]
      assms(1) nb c pr f1 t1
    by (simp add: emit_def)
  with Some d pr show ?thesis
    by (cases r) (simp_all add: main_def emit_def)
qed

lemma trace_grows_replace: "prefix (trace w) (trace (fst (replace_prisma_in_file w q)))"
  by (simp add: replace_prisma_in_file_def emit_def write_file_def Let_def
           split: option.splits sum.splits)

lemma trace_grows_process_all: "prefix (trace w) (trace (fst (process_all w n qs)))"
proof (induction qs arbitrary: w n)
  case Nil
  then show ?case by simp
next
  case (Cons q qs)
  obtain w' r where step: "replace_prisma_in_file w q = (w', r)"
    by (cases "replace_prisma_in_file w q")
  then have w': "prefix (trace w) (trace w')"
    using trace_grows_replace [of w q] by simp
  show ?case
  proof (cases r)
    case (Inl e)
    with step w' show ?thesis by simp
  next
    case (Inr changed)
    with step w' Cons.IH [of w'] show ?thesis
      by (auto intro: prefix_order.trans)
  qed
qed

lemma main_prints_total:
  assumes "root_entries w = Some entries"
  shows "Print (Found (length (candidates w))) \<in> set (trace (fst (main w)))"
proof -
  obtain w1 cands where d: "discover w [] (rglob_ts entries) = (w1, cands)"
    by (cases "discover w [] (rglob_ts entries)")
  then have c: "cands = candidates w"
    using assms by (simp add: candidates_def)
  let ?w2 = "emit (Print (Found (length cands))) w1"
  obtain w3 r where pr: "process_all ?w2 0 cands = (w3, r)"
    by (cases "process_all ?w2 0 cands")
  have "prefix (trace ?w2) (trace w3)"
    using trace_grows_process_all [of ?w2 0 cands] pr by simp
  then have "set (trace ?w2) \<subseteq> set (trace w3)"
    by (auto simp: prefix_def)
  then have "Print (Found (length cands)) \<in> set (trace w3)"
    by (auto simp: emit_def)
  with assms d pr c show ?thesis
    by (cases r) (simp_all add: main_def emit_def)
qed

text \<open>
  The run of a world in which discovery finds the one candidate \<open>p\<close>, whose transformed
  text differs from the text read, and both writes succeed.
\<close>

lemma main_one_candidate:
  assumes "root_entries w = Some entries" and "rglob_ts entries = [p]"
    and "\<not> is_excluded p"
    and "read_text w p = Some content"
    and "sublist construction content"
    and "\<not> already_singleton content"
    and "calculate_relative_path (cwd w) p default_to_file = Inr rel_path"
    and "transform_content rel_path content = Inr new_content"
    and "new_content \<noteq> content"
    and "writable w (backup_path p)" and "writable w p"
  shows "main w =
     (w\<lparr>files := (files w)(backup_path p \<mapsto> content, p \<mapsto> new_content),
        trace := trace w @ [ReadFile p, Print (Found 1), Print (Processing p), ReadFile p,
                            WriteFile (backup_path p) content, WriteFile p new_content,
                            Print Updated, Print (Complete 1 1), Print BackupNote]\<rparr>,
      Exit 0)"
proof -
  let ?w2 = "emit (Print (Found (Suc 0))) (emit (ReadFile p) w)"
  have disc: "discover w [] (rglob_ts entries) = (emit (ReadFile p) w, [p])"
    using assms(2-5) by simp
  have rt: "read_text ?w2 p = Some content"
    using assms(4) by (simp add: read_text_def emit_def)
  have r: "calculate_relative_path (cwd ?w2) p default_to_file = Inr rel_path"
    using assms(7) by (simp add: emit_def)
  have wr: "writable ?w2 (backup_path p)" "writable ?w2 p"
    using assms(10,11) by (simp_all add: emit_def)
  have step: "replace_prisma_in_file ?w2 p =
      (?w2\<lparr>files := (files ?w2)(backup_path p \<mapsto> content, p \<mapsto> new_content),
          trace := trace ?w2 @ [Print (Processing p), ReadFile p,
                                WriteFile (backup_path p) content,
                                WriteFile p new_content, Print Updated]\<rparr>,
       Inr True)"
    using replace_changed [OF rt assms(6) r assms(8,9)] wr by simp
  show ?thesis
    by (simp add: main_def assms(1) disc step) (simp add: emit_def)
qed

text \<open>
  C6, as the code has it. Among the files discovery enumerates (the paths ending with
  \<^verbatim>\<open>.ts\<close>), a path that contains one of the markers \<^verbatim>\<open>test\<close>, \<^verbatim>\<open>mock\<close>, \<^verbatim>\<open>__fixtures__\<close>,
  \<^verbatim>\<open>.spec.\<close>, \<^verbatim>\<open>.test.\<close>, and a file whose text does not contain \<^verbatim>\<open>new PrismaClient()\<close>, is
  not a candidate, is never written by the run and is afterwards as it was, and the
  total the run prints is the number of candidates, which does not count it.
\<close>

theorem excluded_files_are_left_alone:
  assumes "root_entries w = Some entries"
    and "suffix (lit ''.ts'') p"
    and "list_ex (\<lambda>x. sublist x p)
           [lit ''test'', lit ''mock'', lit ''__fixtures__'', lit ''.spec.'', lit ''.test.'']
         \<or> (\<exists>content. files w p = Some content \<and> \<not> sublist (lit ''new PrismaClient()'') content)"
  shows "p \<notin> set (candidates w)
         \<and> files (fst (main w)) p = files w p
         \<and> filter (writes_to p) (trace (fst (main w))) = filter (writes_to p) (trace w)
         \<and> Print (Found (length (candidates w))) \<in> set (trace (fst (main w)))"
proof -
  from assms(3) have "\<not> is_candidate w p"
    by (auto simp: is_candidate_def is_excluded_def excluded_markers_def construction_def)
  then have "p \<notin> set (candidates w)"
    using candidates_are [OF assms(1)] by simp
  then show ?thesis
    using main_keeps_other_files [OF _ assms(2)] main_prints_total [OF assms(1)] by simp
qed

definition test_path :: str where
  "test_path = lit ''apps/api-gateway/src/services/foo.test.ts''"

definition bar_path :: str where
  "bar_path = lit ''apps/api-gateway/src/services/bar.ts''"

definition notes_text :: str where
  "notes_text = lit ''export const x = 1;'' @ [nl]"

definition three_file_world :: world where
  "three_file_world =
     \<lparr>cwd = lit ''/work'', root_entries = Some [foo_path, test_path, bar_path],
      files = [foo_path \<mapsto> unmigrated_text, test_path \<mapsto> unmigrated_text,
               bar_path \<mapsto> notes_text],
      writable = (\<lambda>q. True), trace = []\<rparr>"

theorem excluded_files_are_left_alone_witness:
  "root_entries three_file_world = Some [foo_path, test_path, bar_path]
   \<and> suffix (lit ''.ts'') test_path
   \<and> list_ex (\<lambda>x. sublist x test_path)
        [lit ''test'', lit ''mock'', lit ''__fixtures__'', lit ''.spec.'', lit ''.test.'']
   \<and> test_path \<notin> set (candidates three_file_world)
   \<and> files (fst (main three_file_world)) test_path = Some unmigrated_text
   \<and> filter (writes_to test_path) (trace (fst (main three_file_world))) = []
   \<and> suffix (lit ''.ts'') bar_path
   \<and> files three_file_world bar_path = Some notes_text
   \<and> \<not> sublist (lit ''new PrismaClient()'') notes_text
   \<and> bar_path \<notin> set (candidates three_file_world)
   \<and> files (fst (main three_file_world)) bar_path = Some notes_text
   \<and> filter (writes_to bar_path) (trace (fst (main three_file_world))) = []
   \<and> Print (Found (length (candidates three_file_world)))
        \<in> set (trace (fst (main three_file_world)))"
proof -
  have r: "root_entries three_file_world = Some [foo_path, test_path, bar_path]"
    and t: "trace three_file_world = []"
    by (simp_all add: three_file_world_def)
  have ts: "suffix (lit ''.ts'') test_path" and tb: "suffix (lit ''.ts'') bar_path"
    by (simp_all add: test_path_def bar_path_def lit_def suffix_to_prefix)
  have m: "list_ex (\<lambda>x. sublist x test_path)
        [lit ''test'', lit ''mock'', lit ''__fixtures__'', lit ''.spec.'', lit ''.test.'']"
    by (simp add: test_path_def lit_def sublist_code)
  have f: "files three_file_world test_path = Some unmigrated_text"
    and g: "files three_file_world bar_path = Some notes_text"
    by (simp_all add: three_file_world_def test_path_def bar_path_def foo_path_def lit_def)
  have n: "\<not> sublist (lit ''new PrismaClient()'') notes_text"
    by (simp add: notes_text_def lit_def sublist_code)
  from g n have e: "\<exists>content. files three_file_world bar_path = Some content
                      \<and> \<not> sublist (lit ''new PrismaClient()'') content"
    by simp
  from excluded_files_are_left_alone [OF r ts disjI1, OF m]
       excluded_files_are_left_alone [OF r tb disjI2, OF e]
  show ?thesis
    using r t ts tb m f g n by simp
qed

text \<open>A world in which the backup path of a candidate holds a file already.\<close>

definition bak_world :: world where
  "bak_world =
     \<lparr>cwd = lit ''/work'', root_entries = Some [foo_path, backup_path foo_path],
      files = [foo_path \<mapsto> unmigrated_text, backup_path foo_path \<mapsto> notes_text],
      writable = (\<lambda>q. True), trace = []\<rparr>"

text \<open>
  C6 as stated fails for a file that discovery does not enumerate: the text of this
  file does not contain \<^verbatim>\<open>new PrismaClient()\<close> and it is not a candidate, and the run
  overwrites it, since its path is the backup path of a candidate.
\<close>

theorem excluded_files_counterexample:
  "files bak_world (backup_path foo_path) = Some notes_text
   \<and> \<not> sublist (lit ''new PrismaClient()'') notes_text
   \<and> backup_path foo_path \<notin> set (candidates bak_world)
   \<and> files (fst (main bak_world)) (backup_path foo_path) = Some unmigrated_text
   \<and> unmigrated_text \<noteq> notes_text"
proof -
  have root: "root_entries bak_world = Some [foo_path, backup_path foo_path]"
    and f: "files bak_world (backup_path foo_path) = Some notes_text"
    and c: "cwd bak_world = lit ''/work''"
    and wr: "writable bak_world q" for q
    by (simp_all add: bak_world_def)
  have rt: "read_text bak_world foo_path = Some unmigrated_text"
    using backup_path_differs [of foo_path]
    by (simp add: read_text_def bak_world_def universal_newlines_id [OF unmigrated_no_cr])
  have ts: "suffix (lit ''.ts'') foo_path"
    by (simp add: foo_path_def lit_def suffix_to_prefix)
  have g: "rglob_ts [foo_path, backup_path foo_path] = [foo_path]"
    using ts ts_is_no_backup [of "backup_path foo_path" foo_path] by (auto simp: rglob_ts_def)
  have excl: "\<not> is_excluded foo_path"
    by (simp add: is_excluded_def excluded_markers_def foo_path_def lit_def sublist_code)
  have con: "sublist construction unmigrated_text"
    by (simp add: eval_defs unmigrated_text_def)
  have r: "calculate_relative_path (cwd bak_world) foo_path default_to_file
             = Inr (lit ''../lib/prisma'')"
    using foo_rel_path by (simp add: c)
  have n: "\<not> sublist (lit ''new PrismaClient()'') notes_text"
    by (simp add: notes_text_def lit_def sublist_code)
  have d: "unmigrated_text \<noteq> notes_text"
    by (simp add: unmigrated_text_def notes_text_def lit_def)
  have cand: "candidates bak_world = [foo_path]"
    using excl con rt by (simp add: candidates_def root g)
  have m: "files (fst (main bak_world)) (backup_path foo_path) = Some unmigrated_text"
    using main_one_candidate [OF root g excl rt con unmigrated_not_singleton r
        unmigrated_transform updated_differs wr wr] backup_path_differs [of foo_path]
    by simp
  show ?thesis
    using f n cand m d backup_path_differs [of foo_path] by simp
qed

section \<open>Files without the construction\<close>

lemma replace_other_processing:
  "q \<noteq> p \<Longrightarrow>
     filter (\<lambda>e. e = Print (Processing p)) (trace (fst (replace_prisma_in_file w q)))
       = filter (\<lambda>e. e = Print (Processing p)) (trace w)"
  by (simp add: replace_prisma_in_file_def emit_def write_file_def Let_def
           split: option.splits sum.splits)

lemma process_all_other_processing:
  "p \<notin> set qs \<Longrightarrow>
     filter (\<lambda>e. e = Print (Processing p)) (trace (fst (process_all w n qs)))
       = filter (\<lambda>e. e = Print (Processing p)) (trace w)"
proof (induction qs arbitrary: w n)
  case Nil
  then show ?case by simp
next
  case (Cons q qs)
  obtain w' r where step: "replace_prisma_in_file w q = (w', r)"
    by (cases "replace_prisma_in_file w q")
  from Cons.prems have "q \<noteq> p" and rest: "p \<notin> set qs"
    by auto
  then have w': "filter (\<lambda>e. e = Print (Processing p)) (trace w')
                   = filter (\<lambda>e. e = Print (Processing p)) (trace w)"
    using replace_other_processing [of q p w] step by simp
  show ?case
  proof (cases r)
    case (Inl e)
    with step w' show ?thesis by simp
  next
    case (Inr changed)
    with step w' Cons.IH [OF rest, of w'] show ?thesis by simp
  qed
qed

lemma discover_no_processing:
  "filter (\<lambda>e. e = Print (Processing p)) (trace (fst (discover w acc xs)))
     = filter (\<lambda>e. e = Print (Processing p)) (trace w)"
  by (induction xs arbitrary: w acc) (simp_all add: emit_def split: option.splits)

lemma main_other_processing:
  assumes "p \<notin> set (candidates w)"
  shows "filter (\<lambda>e. e = Print (Processing p)) (trace (fst (main w)))
           = filter (\<lambda>e. e = Print (Processing p)) (trace w)"
proof (cases "root_entries w")
  case None
  then show ?thesis
    by (simp add: main_def emit_def)
next
  case (Some entries)
  obtain w1 cands where d: "discover w [] (rglob_ts entries) = (w1, cands)"
    by (cases "discover w [] (rglob_ts entries)")
  then have c: "cands = candidates w"
    using Some by (simp add: candidates_def)
  have t1: "filter (\<lambda>e. e = Print (Processing p)) (trace w1)
              = filter (\<lambda>e. e = Print (Processing p)) (trace w)"
    using discover_no_processing [of p w "[]" "rglob_ts entries"] d by simp
  obtain w3 r where pr: "process_all (emit (Print (Found (length cands))) w1) 0 cands = (w3, r)"
    by (cases "process_all (emit (Print (Found (length cands))) w1) 0 cands")
  have "filter (\<lambda>e. e = Print (Processing p)) (trace w3)
          = filter (\<lambda>e. e = Print (Processing p)) (trace w)"
    using process_all_other_processing [of p cands "emit (Print (Found (length cands))) w1" 0]
      assms c pr t1
    by (simp add: emit_def)
  with Some d pr show ?thesis
    by (cases r) (simp_all add: main_def emit_def)
qed

text \<open>
  C10, as the code has it. A file enumerated by discovery (a path ending with \<^verbatim>\<open>.ts\<close>)
  whose text does not contain \<^verbatim>\<open>new PrismaClient()\<close> is never a candidate of a run,
  whatever import it holds: the run does not enter \<^verbatim>\<open>replace_prisma_in_file\<close> for it (it
  prints no \<^verbatim>\<open>Processing\<close> line for it), never writes it, and leaves its text as it was.
  The skip test plays no part.
\<close>

theorem no_construction_never_selected:
  assumes "root_entries w = Some entries"
    and "suffix (lit ''.ts'') p"
    and "files w p = Some content"
    and "\<not> sublist (lit ''new PrismaClient()'') content"
  shows "p \<notin> set (candidates w)
         \<and> files (fst (main w)) p = Some content
         \<and> filter (writes_to p) (trace (fst (main w))) = filter (writes_to p) (trace w)
         \<and> filter (\<lambda>e. e = Print (Processing p)) (trace (fst (main w)))
             = filter (\<lambda>e. e = Print (Processing p)) (trace w)"
proof -
  from assms(3,4) have "\<not> is_candidate w p"
    by (simp add: is_candidate_def construction_def)
  then have "p \<notin> set (candidates w)"
    using candidates_are [OF assms(1)] by simp
  then show ?thesis
    using main_keeps_other_files [OF _ assms(2)] main_other_processing assms(3) by simp
qed

definition deep_path :: str where
  "deep_path = lit ''apps/api-gateway/src/a/b/c/d/deep.ts''"

definition deep_text :: str where
  "deep_text =
     lit ''import { prisma } from '../../../../lib/prisma'' @ [quote] @ lit '';'' @ [nl]
     @ lit ''this.prisma = prisma;'' @ [nl]"

theorem no_construction_never_selected_witness:
  "root_entries (world_of deep_path deep_text) = Some [deep_path]
   \<and> suffix (lit ''.ts'') deep_path
   \<and> files (world_of deep_path deep_text) deep_path = Some deep_text
   \<and> \<not> sublist (lit ''new PrismaClient()'') deep_text
   \<and> \<not> already_singleton deep_text
   \<and> deep_path \<notin> set (candidates (world_of deep_path deep_text))
   \<and> files (fst (main (world_of deep_path deep_text))) deep_path = Some deep_text
   \<and> filter (writes_to deep_path) (trace (fst (main (world_of deep_path deep_text)))) = []
   \<and> filter (\<lambda>e. e = Print (Processing deep_path))
        (trace (fst (main (world_of deep_path deep_text)))) = []"
proof -
  have r: "root_entries (world_of deep_path deep_text) = Some [deep_path]"
    and f: "files (world_of deep_path deep_text) deep_path = Some deep_text"
    and t: "trace (world_of deep_path deep_text) = []"
    by (simp_all add: world_of_def)
  have ts: "suffix (lit ''.ts'') deep_path"
    by (simp add: deep_path_def lit_def suffix_to_prefix)
  have n: "\<not> sublist (lit ''new PrismaClient()'') deep_text"
    by (simp add: deep_text_def lit_def sublist_code)
  have a: "\<not> already_singleton deep_text"
    by (simp add: already_singleton_def deep_text_def lit_def sublist_code)
  from no_construction_never_selected [OF r ts f n] r ts f n a t show ?thesis
    by simp
qed

text \<open>
  A world in which \<^verbatim>\<open>deep.ts\<close> constructs a client again and its backup path holds the
  migrated text.
\<close>

definition field_text :: str where
  "field_text = lit ''this.prisma = new PrismaClient();'' @ [nl]"

definition deep_world :: world where
  "deep_world =
     \<lparr>cwd = lit ''/work'', root_entries = Some [deep_path, backup_path deep_path],
      files = [deep_path \<mapsto> field_text, backup_path deep_path \<mapsto> deep_text],
      writable = (\<lambda>q. True), trace = []\<rparr>"

text \<open>
  C10 as stated fails for a file that discovery does not enumerate. The file at the
  backup path of \<^verbatim>\<open>deep.ts\<close> holds a migrated text, without \<^verbatim>\<open>new PrismaClient()\<close>; the run
  never selects it, and overwrites it with the text read from \<^verbatim>\<open>deep.ts\<close>.
\<close>

theorem never_selected_counterexample:
  "files deep_world (backup_path deep_path) = Some deep_text
   \<and> \<not> sublist (lit ''new PrismaClient()'') deep_text
   \<and> candidates deep_world = [deep_path]
   \<and> filter (\<lambda>e. e = Print (Processing (backup_path deep_path)))
        (trace (fst (main deep_world))) = []
   \<and> files (fst (main deep_world)) (backup_path deep_path) = Some field_text
   \<and> field_text \<noteq> deep_text"
proof -
  have root: "root_entries deep_world = Some [deep_path, backup_path deep_path]"
    and f: "files deep_world (backup_path deep_path) = Some deep_text"
    and c: "cwd deep_world = lit ''/work''"
    and t: "trace deep_world = []"
    and wr: "writable deep_world q" for q
    by (simp_all add: deep_world_def)
  have nc: "cr \<notin> set field_text"
    by (simp add: field_text_def lit_def)
  have rt: "read_text deep_world deep_path = Some field_text"
    using backup_path_differs [of deep_path]
    by (simp add: read_text_def deep_world_def universal_newlines_id [OF nc])
  have ts: "suffix (lit ''.ts'') deep_path"
    by (simp add: deep_path_def lit_def suffix_to_prefix)
  have g: "rglob_ts [deep_path, backup_path deep_path] = [deep_path]"
    using ts ts_is_no_backup [of "backup_path deep_path" deep_path] by (auto simp: rglob_ts_def)
  have excl: "\<not> is_excluded deep_path"
    by (simp add: is_excluded_def excluded_markers_def deep_path_def lit_def sublist_code)
  have con: "sublist construction field_text"
    by (simp add: construction_def field_text_def lit_def sublist_code)
  have ns: "\<not> already_singleton field_text"
    by (simp add: already_singleton_def field_text_def lit_def sublist_code)
  have "calculate_relative_path (lit ''/work'') deep_path default_to_file
          = Inr (lit ''../../../../lib/prisma'')"
    by code_simp
  then have r: "calculate_relative_path (cwd deep_world) deep_path default_to_file
             = Inr (lit ''../../../../lib/prisma'')"
    by (simp add: c)
  have tr: "transform_content (lit ''../../../../lib/prisma'') field_text
              = Inr (lit ''this.prisma = prisma;'' @ [nl])"
    by (simp add: eval_defs field_text_def)
  have ne: "lit ''this.prisma = prisma;'' @ [nl] \<noteq> field_text"
    by (simp add: field_text_def lit_def)
  have n: "\<not> sublist (lit ''new PrismaClient()'') deep_text"
    by (simp add: deep_text_def lit_def sublist_code)
  have d: "field_text \<noteq> deep_text"
    by (simp add: field_text_def deep_text_def lit_def)
  have cand: "candidates deep_world = [deep_path]"
    using excl con rt by (simp add: candidates_def root g)
  have m: "main deep_world =
     (deep_world\<lparr>files := (files deep_world)(backup_path deep_path \<mapsto> field_text,
                                                deep_path \<mapsto> lit ''this.prisma = prisma;'' @ [nl]),
        trace := trace deep_world @ [ReadFile deep_path, Print (Found 1),
                   Print (Processing deep_path), ReadFile deep_path,
                   WriteFile (backup_path deep_path) field_text,
                   WriteFile deep_path (lit ''this.prisma = prisma;'' @ [nl]),
                   Print Updated, Print (Complete 1 1), Print BackupNote]\<rparr>,
      Exit 0)"
    by (rule main_one_candidate [OF root g excl rt con ns r tr ne wr wr])
  show ?thesis
    using f n cand d backup_path_differs [of deep_path] by (simp add: m t)
qed

section \<open>The assignment rewrites\<close>

text \<open>
  \<open>apart a m\<close>: no proper suffix of \<open>a\<close> but the empty one starts \<open>m\<close> or is started by
  \<open>m\<close>, so a match of \<open>a\<close> that begins before a block \<open>m\<close> cannot reach into it.
  \<open>untouched a m\<close>: no match of \<open>a\<close> begins inside the block \<open>m\<close>, whatever follows the
  block.
\<close>

definition apart :: "'a list \<Rightarrow> 'a list \<Rightarrow> bool" where
  "apart a m = list_all (\<lambda>x. x = [] \<or> (\<not> prefix x m \<and> \<not> prefix m x)) (suffixes (tl a))"

fun untouched :: "'a list \<Rightarrow> 'a list \<Rightarrow> bool" where
  "untouched a [] = True"
| "untouched a (c # cs) =
     (\<not> prefix a (c # cs) \<and> \<not> prefix (c # cs) a \<and> untouched a cs)"

text \<open>The two rewrites of lines 70 to 82, one after the other.\<close>

definition rewrite_assignments :: "str \<Rightarrow> str" where
  "rewrite_assignments content = rewrite_fallback (rewrite_field content)"

text \<open>What the fallback form has after the output of the first rule.\<close>

definition fallback_tail :: str where
  "fallback_tail = lit '' || new PrismaClient()''"

lemma sub_literal_absent: "\<not> sublist p s \<Longrightarrow> sub_literal p repl s = s"
  by (induction s) (auto simp: sublist_Cons_right)

lemma sub_literal_match:
  "p \<noteq> [] \<Longrightarrow> prefix p s \<Longrightarrow>
     sub_literal p repl s = repl @ sub_literal p repl (drop (length p) s)"
  by (cases s) simp_all

lemma sub_literal_at_match:
  "p \<noteq> [] \<Longrightarrow> sub_literal p repl (p @ v) = repl @ sub_literal p repl v"
  by (cases p) simp_all

lemma sub_literal_untouched:
  "untouched a m \<Longrightarrow> sub_literal a repl (m @ v) = m @ sub_literal a repl v"
proof (induction m)
  case Nil
  then show ?case by simp
next
  case (Cons c cs)
  from Cons.prems have n1: "\<not> prefix a (c # cs)" and n2: "\<not> prefix (c # cs) a"
    by simp_all
  have "\<not> prefix a ((c # cs) @ v)"
  proof
    assume "prefix a ((c # cs) @ v)"
    then consider "prefix a (c # cs)" | us where "a = (c # cs) @ us"
      unfolding prefix_append by blast
    then show False
      using n1 n2 by cases auto
  qed
  with Cons show ?case
    by simp
qed

lemma match_stays_left:
  assumes "prefix a (u @ m @ v)" and "u \<noteq> []" and "apart a m"
  shows "prefix a u"
proof (rule ccontr)
  assume n: "\<not> prefix a u"
  with assms(1) obtain x where a: "a = u @ x" and x: "prefix x (m @ v)"
    by (auto simp: prefix_append)
  from n a have "x \<noteq> []"
    by auto
  from a assms(2) have "suffix x (tl a)"
    by (cases u) (auto simp: suffix_def)
  then have "x \<in> set (suffixes (tl a))"
    by (simp add: in_set_suffixes)
  with assms(3) \<open>x \<noteq> []\<close> have nm: "\<not> prefix x m" "\<not> prefix m x"
    by (auto simp: apart_def list_all_iff)
  from x consider "prefix x m" | us where "x = m @ us"
    unfolding prefix_append by blast
  then show False
    using nm by cases auto
qed

lemma sub_literal_around_block:
  assumes "a \<noteq> []" and "apart a m"
    and block: "sub_literal a repl (m @ v) = m' @ sub_literal a repl v"
  shows "sub_literal a repl (u @ m @ v) = sub_literal a repl u @ m' @ sub_literal a repl v"
proof (induction u rule: length_induct)
  case (1 u)
  show ?case
  proof (cases u)
    case Nil
    then show ?thesis
      using block by simp
  next
    case (Cons c cs)
    show ?thesis
    proof (cases "prefix a (u @ m @ v)")
      case True
      have inside: "prefix a u"
        using match_stays_left [OF True _ assms(2)] Cons by simp
      then have len: "length a \<le> length u"
        by (simp add: prefix_length_le)
      have shorter: "length (drop (length a) u) < length u"
        using assms(1) Cons by simp
      have "sub_literal a repl (u @ m @ v)
              = repl @ sub_literal a repl (drop (length a) (u @ m @ v))"
        by (rule sub_literal_match [OF assms(1) True])
      also have "drop (length a) (u @ m @ v) = drop (length a) u @ m @ v"
        using len by simp
      also have "sub_literal a repl (drop (length a) u @ m @ v)
                   = sub_literal a repl (drop (length a) u) @ m' @ sub_literal a repl v"
        using "1.IH" shorter by simp
      finally have "sub_literal a repl (u @ m @ v)
          = (repl @ sub_literal a repl (drop (length a) u)) @ m' @ sub_literal a repl v"
        by simp
      then show ?thesis
        using sub_literal_match [OF assms(1) inside, of repl] by simp
    next
      case False
      then have "\<not> prefix a u"
        by (auto simp: prefix_append)
      with False Cons "1.IH" show ?thesis
        by simp
    qed
  qed
qed

text \<open>
  A text that neither starts the replacement nor is started by it, at any of its
  positions, cannot be made by the substitution where the input does not have it.
\<close>

lemma sub_literal_prefix_back:
  assumes "list_all (\<lambda>s. s = [] \<or> (\<not> prefix s repl \<and> \<not> prefix repl s)) (suffixes m)"
    and "prefix m (sub_literal a repl v)"
  shows "prefix m v"
  using assms
proof (induction m arbitrary: v)
  case Nil
  then show ?case by simp
next
  case (Cons c cs)
  from Cons.prems(1) have here: "\<not> prefix (c # cs) repl" "\<not> prefix repl (c # cs)"
    and rest: "list_all (\<lambda>s. s = [] \<or> (\<not> prefix s repl \<and> \<not> prefix repl s)) (suffixes cs)"
    by simp_all
  show ?case
  proof (cases v)
    case Nil
    with Cons.prems(2) show ?thesis by simp
  next
    case (Cons x xs)
    show ?thesis
    proof (cases "a \<noteq> [] \<and> prefix a v")
      case True
      with Cons Cons.prems(2)
      have "prefix (c # cs) (repl @ sub_literal a repl (drop (length a) v))"
        by simp
      then consider "prefix (c # cs) repl" | us where "c # cs = repl @ us"
        unfolding prefix_append by blast
      then show ?thesis
        using here by cases auto
    next
      case False
      with Cons Cons.prems(2) have "c = x" and "prefix cs (sub_literal a repl xs)"
        by auto
      with Cons.IH [OF rest, of xs] Cons show ?thesis
        by simp
    qed
  qed
qed

lemma a_apart_a: "apart field_assign field_assign"
  by (simp add: apart_def field_assign_def lit_def)

lemma b_apart_b: "apart fallback_assign fallback_assign"
  by (simp add: apart_def fallback_assign_def lit_def)

lemma a_apart_b: "apart field_assign fallback_assign"
  by (simp add: apart_def field_assign_def fallback_assign_def lit_def)

lemma b_apart_singleton: "apart fallback_assign singleton_assign"
  by (simp add: apart_def fallback_assign_def singleton_assign_def lit_def)

lemma b_untouched_by_a: "untouched field_assign fallback_assign"
  by (simp add: field_assign_def fallback_assign_def lit_def)

lemma tail_untouched_by_a: "untouched field_assign fallback_tail"
  by (simp add: field_assign_def fallback_tail_def lit_def)

lemma fallback_is_singleton_tail: "fallback_assign = singleton_assign @ fallback_tail"
  by (simp add: fallback_assign_def singleton_assign_def fallback_tail_def lit_def)

lemma field_around:
  "rewrite_field (u @ field_assign @ v)
     = rewrite_field u @ singleton_assign @ rewrite_field v"
  unfolding rewrite_field_def
  by (rule sub_literal_around_block [OF _ a_apart_a])
     (simp_all add: sub_literal_at_match field_assign_def lit_def)

lemma fallback_around:
  "rewrite_fallback (u @ fallback_assign @ v)
     = rewrite_fallback u @ singleton_assign @ rewrite_fallback v"
  unfolding rewrite_fallback_def
  by (rule sub_literal_around_block [OF _ b_apart_b])
     (simp_all add: sub_literal_at_match fallback_assign_def lit_def)

lemma field_keeps_fallback:
  "rewrite_field (u @ fallback_assign @ v)
     = rewrite_field u @ fallback_assign @ rewrite_field v"
  unfolding rewrite_field_def
  by (rule sub_literal_around_block [OF _ a_apart_b])
     (simp_all add: sub_literal_untouched [OF b_untouched_by_a]
        field_assign_def fallback_assign_def lit_def)

lemma field_keeps_tail: "rewrite_field (fallback_tail @ v) = fallback_tail @ rewrite_field v"
  unfolding rewrite_field_def by (rule sub_literal_untouched [OF tail_untouched_by_a])

lemma tail_not_made_by_field:
  "\<not> prefix fallback_tail v \<Longrightarrow> \<not> prefix fallback_tail (rewrite_field v)"
  unfolding rewrite_field_def
  using sub_literal_prefix_back [of singleton_assign fallback_tail field_assign v]
  by (auto simp: singleton_assign_def fallback_tail_def lit_def)

text \<open>
  The output of the first rule stays as it is under the second, unless the tail of the
  fallback form follows it.
\<close>

lemma fallback_keeps_singleton:
  assumes "\<not> prefix fallback_tail y"
  shows "rewrite_fallback (singleton_assign @ y) = singleton_assign @ rewrite_fallback y"
proof -
  define r where "r = tl singleton_assign"
  have s: "singleton_assign = 116 # r"
    by (simp add: r_def singleton_assign_def lit_def)
  have n: "\<not> prefix fallback_assign ((116 # r) @ y)"
    using assms by (simp add: fallback_is_singleton_tail s)
  have ne: "fallback_assign \<noteq> []"
    by (simp add: fallback_assign_def lit_def)
  have u: "untouched fallback_assign r"
    by (simp add: r_def fallback_assign_def singleton_assign_def lit_def)
  have "sub_literal fallback_assign singleton_assign ((116 # r) @ y)
          = 116 # sub_literal fallback_assign singleton_assign (r @ y)"
    using n by simp
  also have "\<dots> = 116 # r @ sub_literal fallback_assign singleton_assign y"
    by (simp only: sub_literal_untouched [OF u])
  finally have "sub_literal fallback_assign singleton_assign ((116 # r) @ y)
          = (116 # r) @ sub_literal fallback_assign singleton_assign y"
    by simp
  then show ?thesis
    unfolding rewrite_fallback_def s .
qed

lemma assignments_around_field:
  assumes "\<not> prefix fallback_tail v"
  shows "rewrite_assignments (u @ field_assign @ v)
           = rewrite_assignments u @ singleton_assign @ rewrite_assignments v"
proof -
  have b: "sub_literal fallback_assign singleton_assign (singleton_assign @ rewrite_field v)
             = singleton_assign @ sub_literal fallback_assign singleton_assign (rewrite_field v)"
    using fallback_keeps_singleton [OF tail_not_made_by_field [OF assms]]
    by (simp add: rewrite_fallback_def)
  have ne: "fallback_assign \<noteq> []"
    by (simp add: fallback_assign_def lit_def)
  show ?thesis
    unfolding rewrite_assignments_def field_around
    unfolding rewrite_fallback_def
    by (rule sub_literal_around_block [OF ne b_apart_singleton b])
qed

lemma assignments_around_field_tail:
  "rewrite_assignments (u @ field_assign @ fallback_tail @ v)
     = rewrite_assignments u @ singleton_assign @ rewrite_assignments v"
proof -
  have "rewrite_field (u @ field_assign @ fallback_tail @ v)
          = rewrite_field u @ fallback_assign @ rewrite_field v"
    by (simp add: field_around field_keeps_tail fallback_is_singleton_tail)
  then show ?thesis
    by (simp add: rewrite_assignments_def fallback_around)
qed

lemma assignments_around_fallback:
  "rewrite_assignments (u @ fallback_assign @ v)
     = rewrite_assignments u @ singleton_assign @ rewrite_assignments v"
  by (simp add: rewrite_assignments_def field_keeps_fallback fallback_around)

lemma assignments_absent:
  "\<not> sublist field_assign s \<Longrightarrow> \<not> sublist fallback_assign s \<Longrightarrow> rewrite_assignments s = s"
  by (simp add: rewrite_assignments_def rewrite_field_def rewrite_fallback_def sub_literal_absent)

text \<open>
  C3, as the code has it. The transformer applies the two rules, in this order, to the
  text left by the import insertion and the declaration removal. Wherever
  \<^verbatim>\<open>this.prisma = new PrismaClient()\<close> stands, \<^verbatim>\<open>this.prisma = prisma\<close> is put in its place
  and what is before and what is after are rewritten on their own, unless
  \<^verbatim>\<open> || new PrismaClient()\<close> follows it: then the output of the first rule is a fallback
  form for the second, and that tail goes with it. Wherever
  \<^verbatim>\<open>this.prisma = prisma || new PrismaClient()\<close> stands, the first rule leaves it whole and
  the second puts \<^verbatim>\<open>this.prisma = prisma\<close> in its place. A text in which neither form
  occurs is left unchanged.
\<close>

theorem assignment_rewrites:
  "(insert_import rel_path t = Inr c \<longrightarrow>
      transform_content rel_path t = Inr (rewrite_assignments (remove_decl_lines c)))
   \<and> (\<not> prefix (lit '' || new PrismaClient()'') v \<longrightarrow>
        rewrite_assignments (u @ field_assign @ v)
          = rewrite_assignments u @ singleton_assign @ rewrite_assignments v)
   \<and> rewrite_assignments (u @ field_assign @ lit '' || new PrismaClient()'' @ v)
       = rewrite_assignments u @ singleton_assign @ rewrite_assignments v
   \<and> rewrite_assignments (u @ fallback_assign @ v)
       = rewrite_assignments u @ singleton_assign @ rewrite_assignments v
   \<and> rewrite_field (u @ fallback_assign @ v)
       = rewrite_field u @ fallback_assign @ rewrite_field v
   \<and> (\<not> sublist field_assign s \<and> \<not> sublist fallback_assign s \<longrightarrow> rewrite_assignments s = s)"
proof (intro conjI impI)
  assume "insert_import rel_path t = Inr c"
  then show "transform_content rel_path t = Inr (rewrite_assignments (remove_decl_lines c))"
    by (simp add: transform_content_def rewrite_assignments_def)
next
  assume "\<not> prefix (lit '' || new PrismaClient()'') v"
  then show "rewrite_assignments (u @ field_assign @ v)
          = rewrite_assignments u @ singleton_assign @ rewrite_assignments v"
    using assignments_around_field [of v u] by (simp add: fallback_tail_def)
next
  show "rewrite_assignments (u @ field_assign @ lit '' || new PrismaClient()'' @ v)
       = rewrite_assignments u @ singleton_assign @ rewrite_assignments v"
    using assignments_around_field_tail [of u v] by (simp add: fallback_tail_def)
next
  show "rewrite_assignments (u @ fallback_assign @ v)
       = rewrite_assignments u @ singleton_assign @ rewrite_assignments v"
    by (rule assignments_around_fallback)
next
  show "rewrite_field (u @ fallback_assign @ v)
       = rewrite_field u @ fallback_assign @ rewrite_field v"
    by (rule field_keeps_fallback)
next
  assume "\<not> sublist field_assign s \<and> \<not> sublist fallback_assign s"
  then show "rewrite_assignments s = s"
    by (simp add: assignments_absent)
qed

theorem assignment_rewrites_witness:
  "insert_import (lit ''../lib/prisma'') (lit ''this.prisma = new PrismaClient();'')
     = Inr (lit ''this.prisma = new PrismaClient();'')
   \<and> \<not> prefix (lit '' || new PrismaClient()'') (lit '';'')
   \<and> \<not> sublist field_assign (lit '';'')
   \<and> \<not> sublist fallback_assign (lit '';'')
   \<and> transform_content (lit ''../lib/prisma'') (lit ''this.prisma = new PrismaClient();'')
       = Inr (lit ''this.prisma = prisma;'')
   \<and> insert_import (lit ''../lib/prisma'') (lit ''this.prisma = prisma || new PrismaClient();'')
       = Inr (lit ''this.prisma = prisma || new PrismaClient();'')
   \<and> transform_content (lit ''../lib/prisma'')
         (lit ''this.prisma = prisma || new PrismaClient();'')
       = Inr (lit ''this.prisma = prisma;'')"
proof -
  let ?a = "lit ''this.prisma = new PrismaClient();''"
  let ?b = "lit ''this.prisma = prisma || new PrismaClient();''"
  have i1: "insert_import (lit ''../lib/prisma'') ?a = Inr ?a"
    by (simp add: insert_import_def client_import_def lit_def sublist_code)
  have i2: "insert_import (lit ''../lib/prisma'') ?b = Inr ?b"
    by (simp add: insert_import_def client_import_def lit_def sublist_code)
  have d1: "remove_decl_lines ?a = [] @ field_assign @ lit '';''"
    by (simp add: remove_decl_lines_def match_decl_def lit_then_def prisma_decl_def
          field_assign_def is_space_def lit_def)
  have d2: "remove_decl_lines ?b = [] @ fallback_assign @ lit '';''"
    by (simp add: remove_decl_lines_def match_decl_def lit_then_def prisma_decl_def
          fallback_assign_def is_space_def lit_def)
  have p: "\<not> prefix (lit '' || new PrismaClient()'') (lit '';'')"
    by (simp add: lit_def)
  have n1: "\<not> sublist field_assign (lit '';'')" "\<not> sublist field_assign []"
    by (simp_all add: field_assign_def lit_def sublist_code)
  have n2: "\<not> sublist fallback_assign (lit '';'')" "\<not> sublist fallback_assign []"
    by (simp_all add: fallback_assign_def lit_def sublist_code)
  have e: "singleton_assign @ lit '';'' = lit ''this.prisma = prisma;''"
    by (simp add: singleton_assign_def lit_def)
  from assignment_rewrites [of "lit ''../lib/prisma''" ?a ?a "lit '';''" "[]" "lit '';''"]
       assignment_rewrites [of "lit ''../lib/prisma''" ?b ?b "lit '';''" "[]" "[]"]
  show ?thesis
    using i1 i2 p n1 n2 by (simp add: d1 d2 e)
qed

text \<open>
  C3 as stated fails: the text after this field assignment is not left unchanged. The
  first rule makes \<^verbatim>\<open>this.prisma = prisma || new PrismaClient();\<close> of it, which the second
  rule rewrites.
\<close>

theorem assignment_rewrites_counterexample:
  "transform_content (lit ''../lib/prisma'')
     (lit ''this.prisma = new PrismaClient() || new PrismaClient();'')
     = Inr (lit ''this.prisma = prisma;'')
   \<and> lit ''this.prisma = prisma;'' \<noteq> lit ''this.prisma = prisma || new PrismaClient();''"
  by (simp add: eval_defs)

section \<open>Properties of the relative import path\<close>

text \<open>The components of the target module without its suffix.\<close>

definition target_comps :: "str list" where
  "target_comps = [lit ''apps'', lit ''api-gateway'', lit ''src'', lit ''lib'', lit ''prisma'']"

text \<open>A component that \<^verbatim>\<open>normpath\<close> keeps as it is.\<close>

definition plain :: "str \<Rightarrow> bool" where
  "plain c = (c \<noteq> [] \<and> c \<noteq> lit ''.'' \<and> c \<noteq> lit ''..'')"

lemma split_on_not_Nil: "split_on sep s \<noteq> []"
  by (induction s) (auto split: list.splits)

lemma split_on_no_sep: "x \<in> set (split_on sep s) \<Longrightarrow> sep \<notin> set x"
  by (induction s arbitrary: x) (auto split: list.splits if_splits)

lemma split_on_no_sep_id: "sep \<notin> set x \<Longrightarrow> split_on sep x = [x]"
  by (induction x) auto

lemma split_on_append:
  "sep \<notin> set x \<Longrightarrow> split_on sep (x @ sep # s) = x # split_on sep s"
  by (induction x) auto

lemma split_join:
  "xs \<noteq> [] \<Longrightarrow> \<forall>x\<in>set xs. sep \<notin> set x \<Longrightarrow> split_on sep (join_with sep xs) = xs"
proof (induction sep xs rule: join_with.induct)
  case (1 sep)
  then show ?case by simp
next
  case (2 sep x)
  then show ?case by (simp add: split_on_no_sep_id)
next
  case (3 sep x y ys)
  then show ?case by (simp add: split_on_append)
qed

lemma foldl_norm_plain: "\<forall>x\<in>set xs. plain x \<Longrightarrow> foldl norm_step acc xs = acc @ xs"
  by (induction xs arbitrary: acc) (auto simp: norm_step_def plain_def)

lemma common_len_append: "common_len (c @ xs) (c @ ys) = length c + common_len xs ys"
  by (induction c) auto

lemma common_len_le: "common_len xs ys \<le> length xs"
  by (induction xs ys rule: common_len.induct) auto

lemma target_plain: "\<forall>x\<in>set target_comps. plain x"
  by (simp add: target_comps_def plain_def lit_def)

lemma target_parts:
  "path_parts default_to_file
     = [lit ''apps'', lit ''api-gateway'', lit ''src'', lit ''lib'', lit ''prisma.ts'']"
  by code_simp

lemma target_stem: "stem (lit ''prisma.ts'') = lit ''prisma''"
  by code_simp

lemma target_not_abs: "\<not> is_abs default_to_file"
  by code_simp

lemma target_str:
  "path_str False [lit ''apps'', lit ''api-gateway'', lit ''src'', lit ''lib'', lit ''prisma'']
     = lit ''apps/api-gateway/src/lib/prisma''"
  by code_simp

lemma target_split:
  "split_on slash (lit ''apps/api-gateway/src/lib/prisma'') = target_comps"
  by code_simp

lemma target_abs_comps:
  "abs_comps wd (lit ''apps/api-gateway/src/lib/prisma'')
     = foldl norm_step [] (split_on slash wd) @ target_comps"
proof -
  have "\<not> is_abs (lit ''apps/api-gateway/src/lib/prisma'')"
    by code_simp
  then show ?thesis
    by (simp add: abs_comps_def target_split foldl_norm_plain [OF target_plain])
qed

text \<open>What the function returns from the list \<^verbatim>\<open>rel_list\<close> of \<^verbatim>\<open>relpath\<close>.\<close>

definition specifier :: "str list \<Rightarrow> str" where
  "specifier rel_list =
     (let rel_path = (if rel_list = [] then lit ''.'' else join_with slash rel_list)
      in if \<not> prefix (lit ''.'') rel_path then lit ''./'' @ rel_path else rel_path)"

lemma calc_default:
  "calculate_relative_path wd f default_to_file =
     (let start_list = abs_comps wd (path_str (is_abs f) (butlast (path_parts f)));
          path_list = foldl norm_step [] (split_on slash wd) @ target_comps;
          i = common_len start_list path_list
      in Inr (specifier (replicate (length start_list - i) (lit ''..'') @ drop i path_list)))"
proof -
  have ne: "lit ''apps/api-gateway/src/lib/prisma'' \<noteq> []"
    by (simp add: lit_def)
  show ?thesis
    using ne
    by (simp add: calculate_relative_path_def target_parts target_stem target_not_abs
          target_str relpath_def target_abs_comps specifier_def Let_def)
qed

lemma specifier_dot: "prefix (lit ''.'') (specifier rel_list)"
  by (simp add: specifier_def Let_def lit_def)

lemma join_with_Cons:
  "join_with sep (x # xs) = (if xs = [] then x else x @ sep # join_with sep xs)"
  by (cases xs) simp_all

lemma parts_plain:
  assumes "lit ''..'' \<notin> set (path_parts f)" and "x \<in> set (path_parts f)"
  shows "plain x \<and> slash \<notin> set x"
  using assms split_on_no_sep [of x slash f]
  by (auto simp: path_parts_def plain_def)

lemma from_dir_comps:
  assumes "\<not> is_abs f" and "lit ''..'' \<notin> set (path_parts f)"
  shows "abs_comps wd (path_str (is_abs f) (butlast (path_parts f)))
           = foldl norm_step [] (split_on slash wd) @ butlast (path_parts f)"
proof (cases "butlast (path_parts f)")
  case Nil
  have "\<not> is_abs (lit ''.'')" and "split_on slash (lit ''.'') = [lit ''.'']"
    by (simp_all add: is_abs_def lit_def)
  with Nil assms(1) show ?thesis
    by (simp add: path_str_def abs_comps_def norm_step_def)
next
  case (Cons x xs)
  have all: "\<forall>y\<in>set (x # xs). plain y \<and> slash \<notin> set y"
    using parts_plain [OF assms(2)] Cons by (metis in_set_butlastD)
  then have "x \<noteq> []" and "slash \<notin> set x"
    by (simp_all add: plain_def)
  then have "\<not> is_abs (join_with slash (x # xs))"
    by (cases x) (auto simp: is_abs_def join_with_Cons)
  moreover have "split_on slash (join_with slash (x # xs)) = x # xs"
    using all by (intro split_join) auto
  moreover have "foldl norm_step acc (x # xs) = acc @ x # xs" for acc
    using all by (intro foldl_norm_plain) auto
  ultimately show ?thesis
    using Cons assms(1) by (simp add: path_str_def abs_comps_def)
qed

lemma calc_relative:
  assumes "\<not> is_abs f" and "lit ''..'' \<notin> set (path_parts f)"
  shows "calculate_relative_path wd f default_to_file =
           Inr (specifier
                  (replicate (length (butlast (path_parts f))
                                - common_len (butlast (path_parts f)) target_comps) (lit ''..'')
                   @ drop (common_len (butlast (path_parts f)) target_comps) target_comps))"
  by (simp add: calc_default from_dir_comps [OF assms] common_len_append Let_def)

lemma target_heads: "\<forall>x\<in>set target_comps. x \<noteq> [] \<and> hd x \<noteq> 46"
  by (simp add: target_comps_def lit_def)

lemma specifier_shape:
  "specifier (replicate n (lit ''..'') @ drop j target_comps) = lit ''.''
   \<or> specifier (replicate n (lit ''..'') @ drop j target_comps) = lit ''..''
   \<or> prefix (lit ''./'') (specifier (replicate n (lit ''..'') @ drop j target_comps))
   \<or> prefix (lit ''../'') (specifier (replicate n (lit ''..'') @ drop j target_comps))"
proof (cases n)
  case 0
  show ?thesis
  proof (cases "drop j target_comps")
    case Nil
    with 0 show ?thesis
      by (simp add: specifier_def lit_def)
  next
    case (Cons x xs)
    then have "x \<in> set target_comps"
      by (metis in_set_dropD list.set_intros(1))
    then have "x \<noteq> []" and "hd x \<noteq> 46"
      using target_heads by auto
    then have "\<not> prefix (lit ''.'') (join_with slash (x # xs))"
      by (cases x) (auto simp: join_with_Cons lit_def)
    with 0 Cons show ?thesis
      by (simp add: specifier_def lit_def)
  qed
next
  case (Suc k)
  show ?thesis
  proof (cases "replicate k (lit ''..'') @ drop j target_comps")
    case Nil
    with Suc show ?thesis
      by (simp add: specifier_def lit_def)
  next
    case (Cons x xs)
    with Suc show ?thesis
      by (simp add: specifier_def lit_def Let_def)
  qed
qed

definition users_path :: str where
  "users_path = lit ''apps/api-gateway/src/routes/users.ts''"

lemma users_parts:
  "path_parts users_path
     = [lit ''apps'', lit ''api-gateway'', lit ''src'', lit ''routes'', lit ''users.ts'']"
  by code_simp

lemma users_relative: "\<not> is_abs users_path \<and> lit ''..'' \<notin> set (path_parts users_path)"
  by code_simp

lemma users_specifier:
  "specifier
     (replicate
        (length (butlast [lit ''apps'', lit ''api-gateway'', lit ''src'', lit ''routes'',
                          lit ''users.ts''])
         - common_len (butlast [lit ''apps'', lit ''api-gateway'', lit ''src'', lit ''routes'',
                                lit ''users.ts'']) target_comps) (lit ''..'')
      @ drop (common_len (butlast [lit ''apps'', lit ''api-gateway'', lit ''src'',
                                   lit ''routes'', lit ''users.ts'']) target_comps)
          target_comps)
     = lit ''../lib/prisma''"
  by code_simp

lemma users_result:
  "calculate_relative_path wd users_path default_to_file = Inr (lit ''../lib/prisma'')"
proof -
  from users_relative have a: "\<not> is_abs users_path"
    and b: "lit ''..'' \<notin> set (path_parts users_path)"
    by simp_all
  show ?thesis
    by (simp only: calc_relative [OF a b] users_parts users_specifier)
qed

text \<open>
  The relative path from a directory to a target, both given by their components: one
  \<^verbatim>\<open>..\<close> for each component of the directory after the common beginning, then the
  components of the target after it, made a specifier.
\<close>

definition relative_specifier :: "str list \<Rightarrow> str list \<Rightarrow> str" where
  "relative_specifier from_dir target =
     specifier (replicate (length from_dir - common_len from_dir target) (lit ''..'')
                @ drop (common_len from_dir target) target)"

text \<open>
  C7, as the code has it. For every working directory and source path the function
  returns the relative path from the directory of the source to the target without its
  suffix, both made absolute and normalised as \<^verbatim>\<open>os.path.relpath\<close> does, with \<^verbatim>\<open>./\<close> put
  before it when it does not begin with \<^verbatim>\<open>.\<close> already; so the specifier begins with
  \<^verbatim>\<open>.\<close>, and the fixed specifier of the \<^verbatim>\<open>except\<close> branch is never returned for it. For a
  relative source path with no \<^verbatim>\<open>..\<close> part, as discovery yields them, the working
  directory plays no part: the specifier is the relative path from the directories of
  the source path to \<^verbatim>\<open>apps/api-gateway/src/lib/prisma\<close>, and it is \<^verbatim>\<open>.\<close>, \<^verbatim>\<open>..\<close>, or begins
  with \<^verbatim>\<open>./\<close> or \<^verbatim>\<open>../\<close>. For \<^verbatim>\<open>apps/api-gateway/src/routes/users.ts\<close> it is
  \<^verbatim>\<open>../lib/prisma\<close>.
\<close>

theorem relative_path_begins_with_dot:
  "calculate_relative_path wd f default_to_file
     = Inr (relative_specifier
              (abs_comps wd (path_str (is_abs f) (butlast (path_parts f))))
              (abs_comps wd (lit ''apps/api-gateway/src/lib/prisma'')))
   \<and> (\<exists>r. calculate_relative_path wd f default_to_file = Inr r \<and> prefix (lit ''.'') r)
   \<and> (\<not> is_abs f \<and> lit ''..'' \<notin> set (path_parts f) \<longrightarrow>
        calculate_relative_path wd f default_to_file
          = Inr (relative_specifier (butlast (path_parts f))
                   [lit ''apps'', lit ''api-gateway'', lit ''src'', lit ''lib'', lit ''prisma''])
        \<and> (\<exists>r. calculate_relative_path wd f default_to_file = Inr r
               \<and> (r = lit ''.'' \<or> r = lit ''..''
                    \<or> prefix (lit ''./'') r \<or> prefix (lit ''../'') r)))
   \<and> calculate_relative_path wd (lit ''apps/api-gateway/src/routes/users.ts'') default_to_file
       = Inr (lit ''../lib/prisma'')"
proof (intro conjI impI)
  show "calculate_relative_path wd f default_to_file
     = Inr (relative_specifier
              (abs_comps wd (path_str (is_abs f) (butlast (path_parts f))))
              (abs_comps wd (lit ''apps/api-gateway/src/lib/prisma'')))"
    by (simp add: calc_default target_abs_comps relative_specifier_def Let_def)
next
  show "\<exists>r. calculate_relative_path wd f default_to_file = Inr r \<and> prefix (lit ''.'') r"
    by (simp add: calc_default Let_def specifier_dot)
next
  assume "\<not> is_abs f \<and> lit ''..'' \<notin> set (path_parts f)"
  then show "calculate_relative_path wd f default_to_file
          = Inr (relative_specifier (butlast (path_parts f))
                   [lit ''apps'', lit ''api-gateway'', lit ''src'', lit ''lib'', lit ''prisma''])"
    using calc_relative [of f wd] by (simp add: relative_specifier_def target_comps_def)
next
  assume "\<not> is_abs f \<and> lit ''..'' \<notin> set (path_parts f)"
  then show "\<exists>r. calculate_relative_path wd f default_to_file = Inr r
             \<and> (r = lit ''.'' \<or> r = lit ''..''
                  \<or> prefix (lit ''./'') r \<or> prefix (lit ''../'') r)"
    using specifier_shape by (simp add: calc_relative)
next
  show "calculate_relative_path wd (lit ''apps/api-gateway/src/routes/users.ts'') default_to_file
       = Inr (lit ''../lib/prisma'')"
    using users_result [of wd] by (simp add: users_path_def)
qed

definition sibling_path :: str where
  "sibling_path = lit ''apps/api-gateway/src/lib/audit.ts''"

theorem relative_path_begins_with_dot_witness:
  "\<not> is_abs users_path
   \<and> lit ''..'' \<notin> set (path_parts users_path)
   \<and> calculate_relative_path (lit ''/work'') users_path default_to_file
       = Inr (lit ''../lib/prisma'')
   \<and> prefix (lit ''../'') (lit ''../lib/prisma'')
   \<and> \<not> is_abs sibling_path
   \<and> lit ''..'' \<notin> set (path_parts sibling_path)
   \<and> calculate_relative_path (lit ''/work'') sibling_path default_to_file
       = Inr (lit ''./prisma'')
   \<and> prefix (lit ''./'') (lit ''./prisma'')"
proof -
  have p: "prefix (lit ''../'') (lit ''../lib/prisma'')" "prefix (lit ''./'') (lit ''./prisma'')"
    by (simp_all add: lit_def)
  have s: "\<not> is_abs sibling_path \<and> lit ''..'' \<notin> set (path_parts sibling_path)"
    by code_simp
  have u: "relative_specifier (butlast (path_parts users_path))
             [lit ''apps'', lit ''api-gateway'', lit ''src'', lit ''lib'', lit ''prisma'']
           = lit ''../lib/prisma''"
    by code_simp
  have v: "relative_specifier (butlast (path_parts sibling_path))
             [lit ''apps'', lit ''api-gateway'', lit ''src'', lit ''lib'', lit ''prisma'']
           = lit ''./prisma''"
    by code_simp
  have a: "calculate_relative_path (lit ''/work'') users_path default_to_file
             = Inr (relative_specifier (butlast (path_parts users_path))
                      [lit ''apps'', lit ''api-gateway'', lit ''src'', lit ''lib'', lit ''prisma''])"
    using relative_path_begins_with_dot [of "lit ''/work''" users_path] users_relative
    by blast
  have b: "calculate_relative_path (lit ''/work'') sibling_path default_to_file
             = Inr (relative_specifier (butlast (path_parts sibling_path))
                      [lit ''apps'', lit ''api-gateway'', lit ''src'', lit ''lib'', lit ''prisma''])"
    using relative_path_begins_with_dot [of "lit ''/work''" sibling_path] s
    by blast
  show ?thesis
    using users_relative s p by (simp add: a b u v)
qed

text \<open>
  C7 as stated fails: a source file in a directory \<^verbatim>\<open>lib/prisma\<close> gets the specifier
  \<^verbatim>\<open>.\<close>, which begins with neither \<^verbatim>\<open>./\<close> nor \<^verbatim>\<open>../\<close>.
\<close>

theorem relative_path_counterexample:
  "calculate_relative_path (lit ''/work'') (lit ''apps/api-gateway/src/lib/prisma/index.ts'')
     default_to_file = Inr (lit ''.'')
   \<and> \<not> prefix (lit ''./'') (lit ''.'')
   \<and> \<not> prefix (lit ''../'') (lit ''.'')"
  by code_simp

text \<open>
  The fixed specifier of the \<^verbatim>\<open>except\<close> branch is not what the function returns where
  the relative path is another one.
\<close>

lemma sibling_is_not_fallback:
  "calculate_relative_path (lit ''/work'') sibling_path default_to_file \<noteq> Inr (lit ''../lib/prisma'')"
  by code_simp

section \<open>The import insertion\<close>

text \<open>
  An import statement as the second pattern reads it: \<^verbatim>\<open>import\<close> and a space, then text
  without a newline, then a semicolon and the newline. \<open>starts_import s\<close>: the text \<open>s\<close>
  begins with such a statement.
\<close>

definition import_stmt :: "str \<Rightarrow> bool" where
  "import_stmt l = (\<exists>body. l = lit ''import '' @ body @ lit '';'' @ [nl] \<and> nl \<notin> set body)"

definition starts_import :: "str \<Rightarrow> bool" where
  "starts_import s = (\<exists>l rest. s = l @ rest \<and> import_stmt l)"

lemma semi_nl_then: "lit_then (lit '';'' @ [nl]) Some s = Some r \<longleftrightarrow> s = lit '';'' @ [nl] @ r"
  by (auto simp: lit_then_def prefix_def lit_def)

lemma lazy_dot_sound:
  "lazy_dot (lit_then (lit '';'' @ [nl]) Some) s = Some r \<Longrightarrow>
     \<exists>body. s = body @ lit '';'' @ [nl] @ r \<and> nl \<notin> set body"
proof (induction s)
  case Nil
  then show ?case
    by (simp add: lit_then_def lit_def)
next
  case (Cons c cs)
  show ?case
  proof (cases "lit_then (lit '';'' @ [nl]) Some (c # cs)")
    case (Some r')
    with Cons.prems have "lit_then (lit '';'' @ [nl]) Some (c # cs) = Some r"
      by simp
    then have "c # cs = [] @ lit '';'' @ [nl] @ r \<and> nl \<notin> set []"
      by (simp add: semi_nl_then)
    then show ?thesis
      by blast
  next
    case None
    with Cons.prems have c: "c \<noteq> nl"
      and "lazy_dot (lit_then (lit '';'' @ [nl]) Some) cs = Some r"
      by (auto split: if_splits)
    then obtain body where "cs = body @ lit '';'' @ [nl] @ r" and "nl \<notin> set body"
      using Cons.IH by blast
    with c have "c # cs = (c # body) @ lit '';'' @ [nl] @ r \<and> nl \<notin> set (c # body)"
      by simp
    then show ?thesis
      by blast
  qed
qed

lemma lazy_dot_complete:
  "nl \<notin> set body \<Longrightarrow>
     lazy_dot (lit_then (lit '';'' @ [nl]) Some) (body @ lit '';'' @ [nl] @ r) = Some r"
proof (induction body)
  case Nil
  show ?case
    by (simp add: lit_then_def lit_def)
next
  case (Cons c body)
  have "lit_then (lit '';'' @ [nl]) Some ((c # body) @ lit '';'' @ [nl] @ r) = None"
  proof (cases "lit_then (lit '';'' @ [nl]) Some ((c # body) @ lit '';'' @ [nl] @ r)")
    case None
    then show ?thesis by simp
  next
    case (Some r')
    then have "(c # body) @ lit '';'' @ [nl] @ r = lit '';'' @ [nl] @ r'"
      by (simp add: semi_nl_then)
    with Cons.prems show ?thesis
      by (cases body) (auto simp: lit_def)
  qed
  with Cons show ?case
    by simp
qed

lemma match_import_iff:
  "match_import s = Some r \<longleftrightarrow> (\<exists>l. s = l @ r \<and> import_stmt l)"
proof
  assume "match_import s = Some r"
  then obtain s' where s: "s = lit ''import '' @ s'"
    and "lazy_dot (lit_then (lit '';'' @ [nl]) Some) s' = Some r"
    unfolding match_import_def using lit_then_Some by blast
  then obtain body where "s' = body @ lit '';'' @ [nl] @ r" and "nl \<notin> set body"
    using lazy_dot_sound by blast
  with s have "s = (lit ''import '' @ body @ lit '';'' @ [nl]) @ r
               \<and> import_stmt (lit ''import '' @ body @ lit '';'' @ [nl])"
    by (auto simp: import_stmt_def)
  then show "\<exists>l. s = l @ r \<and> import_stmt l"
    by blast
next
  assume "\<exists>l. s = l @ r \<and> import_stmt l"
  then obtain body where "s = lit ''import '' @ body @ lit '';'' @ [nl] @ r" and "nl \<notin> set body"
    by (auto simp: import_stmt_def)
  then show "match_import s = Some r"
    using lazy_dot_complete [of body r] by (simp add: match_import_def lit_then_def [of "lit ''import ''"])
qed

lemma match_import_none: "match_import s = None \<longleftrightarrow> \<not> starts_import s"
proof -
  have "starts_import s \<longleftrightarrow> (\<exists>r. match_import s = Some r)"
    unfolding starts_import_def match_import_iff by blast
  then show ?thesis
    by auto
qed

lemma sub_first_at:
  assumes "\<And>u w. pre = u @ w \<Longrightarrow> w \<noteq> [] \<Longrightarrow> m (w @ t) = None"
    and "m t = Some r" and "t \<noteq> []"
  shows "sub_first m f (pre @ t) = pre @ f (take (length t - length r) t) @ r"
  using assms(1)
proof (induction pre)
  case Nil
  with assms(2,3) show ?case
    by (cases t) simp_all
next
  case (Cons c pre)
  have "m ((c # pre) @ t) = None"
    using Cons.prems [of "[]" "c # pre"] by simp
  moreover have "sub_first m f (pre @ t) = pre @ f (take (length t - length r) t) @ r"
  proof (rule Cons.IH)
    fix u w
    assume "pre = u @ w" and "w \<noteq> []"
    then show "m (w @ t) = None"
      using Cons.prems [of "c # u" w] by simp
  qed
  ultimately show ?case
    by simp
qed

lemma sub_first_none:
  assumes "\<And>u w. s = u @ w \<Longrightarrow> w \<noteq> [] \<Longrightarrow> m w = None"
  shows "sub_first m f s = s"
  using assms
proof (induction s)
  case Nil
  then show ?case by simp
next
  case (Cons c s)
  have "m (c # s) = None"
    using Cons.prems [of "[]" "c # s"] by simp
  moreover have "sub_first m f s = s"
  proof (rule Cons.IH)
    fix u w
    assume "s = u @ w" and "w \<noteq> []"
    then show "m w = None"
      using Cons.prems [of "c # u" w] by simp
  qed
  ultimately show ?case
    by simp
qed

lemma early_occurrence:
  assumes "prefix p (w @ p @ post)" and "w \<noteq> []"
  shows "prefix p (w @ butlast p)"
proof (cases "p = []")
  case True
  then show ?thesis by simp
next
  case False
  then have "p = butlast p @ [last p]"
    by simp
  then have "w @ p @ post = (w @ butlast p) @ [last p] @ post"
    by (metis append.assoc)
  then have "prefix (w @ butlast p) (w @ p @ post)"
    by (metis prefixI)
  moreover have "length p \<le> length (w @ butlast p)"
    using assms(2) False by (cases w) auto
  ultimately show ?thesis
    using assms(1) by (metis prefix_length_prefix)
qed

lemma client_import_first:
  assumes "\<not> sublist client_import (pre @ butlast client_import)"
  shows "sub_first match_client_import f (pre @ client_import @ post)
           = pre @ f client_import @ post"
proof -
  have none: "match_client_import (w @ client_import @ post) = None"
    if "pre = u @ w" and "w \<noteq> []" for u w
  proof -
    have "\<not> prefix client_import (w @ client_import @ post)"
    proof
      assume "prefix client_import (w @ client_import @ post)"
      then have "prefix client_import (w @ butlast client_import)"
        using that(2) by (rule early_occurrence)
      then obtain z where "w @ butlast client_import = client_import @ z"
        by (auto simp: prefix_def)
      then have "pre @ butlast client_import = u @ client_import @ z"
        using that(1) by simp
      then have "sublist client_import (pre @ butlast client_import)"
        unfolding sublist_def by blast
      with assms show False
        by simp
    qed
    then show ?thesis
      by (simp add: match_client_import_def lit_then_def)
  qed
  have some: "match_client_import (client_import @ post) = Some post"
    by (simp add: match_client_import_def lit_then_def)
  have ne: "client_import @ post \<noteq> []"
    by (simp add: client_import_def lit_def)
  have "sub_first match_client_import f (pre @ client_import @ post)
          = pre @ f (take (length (client_import @ post) - length post) (client_import @ post))
            @ post"
    using none some ne by (rule sub_first_at)
  then show ?thesis
    by simp
qed

text \<open>
  C1, as the code has it. With no backslash in the relative path: when the text
  contains \<^verbatim>\<open>from '@prisma/client';\<close>, a newline and the singleton import are inserted
  right after its first occurrence, and nowhere else; otherwise, when the text contains
  \<^verbatim>\<open>import {\<close>, the singleton import and a newline are inserted right after the first
  import statement that ends its line with a semicolon, if there is one; in every other
  case the text is returned as it is.
\<close>

theorem import_insertion:
  assumes "backslash \<notin> set rel_path"
  shows
    "(\<not> sublist client_import (pre @ butlast client_import) \<longrightarrow>
        insert_import rel_path (pre @ client_import @ post)
          = Inr (pre @ client_import @ [nl] @ singleton_import rel_path @ post))
     \<and> (\<not> sublist client_import (pre @ line @ post)
          \<and> sublist (lit ''import {'') (pre @ line @ post)
          \<and> import_stmt line
          \<and> (\<forall>u w. pre = u @ w \<and> w \<noteq> [] \<longrightarrow> \<not> starts_import (w @ line @ post)) \<longrightarrow>
        insert_import rel_path (pre @ line @ post)
          = Inr (pre @ line @ singleton_import rel_path @ [nl] @ post))
     \<and> (\<not> sublist client_import content
          \<and> (\<not> sublist (lit ''import {'') content
               \<or> (\<forall>u w. content = u @ w \<longrightarrow> \<not> starts_import w)) \<longrightarrow>
        insert_import rel_path content = Inr content)"
proof (intro conjI impI)
  assume first: "\<not> sublist client_import (pre @ butlast client_import)"
  have "sublist client_import (pre @ client_import @ post)"
    unfolding sublist_def by blast
  then show "insert_import rel_path (pre @ client_import @ post)
          = Inr (pre @ client_import @ [nl] @ singleton_import rel_path @ post)"
    by (simp add: insert_import_plain [OF assms] client_import_first [OF first])
next
  assume h: "\<not> sublist client_import (pre @ line @ post)
          \<and> sublist (lit ''import {'') (pre @ line @ post)
          \<and> import_stmt line
          \<and> (\<forall>u w. pre = u @ w \<and> w \<noteq> [] \<longrightarrow> \<not> starts_import (w @ line @ post))"
  then have some: "match_import (line @ post) = Some post"
    using match_import_iff [of "line @ post" post] by blast
  from h have ne: "line @ post \<noteq> []"
    by (auto simp: import_stmt_def lit_def)
  have none: "match_import (w @ line @ post) = None" if "pre = u @ w" and "w \<noteq> []" for u w
    using h that by (simp add: match_import_none)
  have "sub_first match_import (\<lambda>g. g @ singleton_import rel_path @ [nl]) (pre @ line @ post)
          = pre @ (\<lambda>g. g @ singleton_import rel_path @ [nl])
                    (take (length (line @ post) - length post) (line @ post)) @ post"
    using none some ne by (rule sub_first_at)
  then show "insert_import rel_path (pre @ line @ post)
          = Inr (pre @ line @ singleton_import rel_path @ [nl] @ post)"
    using h by (simp add: insert_import_plain [OF assms])
next
  assume h: "\<not> sublist client_import content
          \<and> (\<not> sublist (lit ''import {'') content
               \<or> (\<forall>u w. content = u @ w \<longrightarrow> \<not> starts_import w))"
  show "insert_import rel_path content = Inr content"
  proof (cases "sublist (lit ''import {'') content")
    case False
    with h show ?thesis
      by (simp add: insert_import_plain [OF assms])
  next
    case True
    with h have "\<And>u w. content = u @ w \<Longrightarrow> w \<noteq> [] \<Longrightarrow> match_import w = None"
      by (simp add: match_import_none)
    then have "sub_first match_import f content = content" for f
      by (rule sub_first_none)
    with h True show ?thesis
      by (simp add: insert_import_plain [OF assms])
  qed
qed

definition braces_line :: str where
  "braces_line = lit ''import { a } from 'b'' @ [quote] @ lit '';'' @ [nl]"

definition plain_import_text :: str where
  "plain_import_text = lit ''import x from 'y';'' @ [nl]"

lemma braces_line_stmt: "import_stmt braces_line"
proof -
  have "braces_line = lit ''import '' @ (lit ''{ a } from 'b'' @ [quote]) @ lit '';'' @ [nl]
        \<and> nl \<notin> set (lit ''{ a } from 'b'' @ [quote])"
    by (simp add: braces_line_def lit_def)
  then show ?thesis
    unfolding import_stmt_def by blast
qed

theorem import_insertion_witness:
  "backslash \<notin> set (lit ''../lib/prisma'')
   \<and> \<not> sublist client_import (lit ''import { PrismaClient } '' @ butlast client_import)
   \<and> insert_import (lit ''../lib/prisma'')
         (lit ''import { PrismaClient } '' @ client_import @ [nl] @ client_import)
       = Inr (lit ''import { PrismaClient } '' @ client_import @ [nl]
              @ singleton_import (lit ''../lib/prisma'') @ [nl] @ client_import)
   \<and> \<not> sublist client_import (braces_line @ lit ''x'')
   \<and> sublist (lit ''import {'') (braces_line @ lit ''x'')
   \<and> import_stmt braces_line
   \<and> insert_import (lit ''../lib/prisma'') (braces_line @ lit ''x'')
       = Inr (braces_line @ singleton_import (lit ''../lib/prisma'') @ [nl] @ lit ''x'')
   \<and> \<not> sublist client_import (lit ''const x = 1;'')
   \<and> \<not> sublist (lit ''import {'') (lit ''const x = 1;'')
   \<and> insert_import (lit ''../lib/prisma'') (lit ''const x = 1;'') = Inr (lit ''const x = 1;'')"
proof -
  have b: "backslash \<notin> set (lit ''../lib/prisma'')"
    by (simp add: lit_def)
  have h1: "\<not> sublist client_import (lit ''import { PrismaClient } '' @ butlast client_import)"
    by (simp add: client_import_def lit_def sublist_code)
  have h2: "\<not> sublist client_import ([] @ braces_line @ lit ''x'')"
    by (simp add: client_import_def braces_line_def lit_def sublist_code)
  have h3: "sublist (lit ''import {'') ([] @ braces_line @ lit ''x'')"
    by (simp add: braces_line_def lit_def sublist_code)
  have h4: "\<not> sublist client_import (lit ''const x = 1;'')"
    by (simp add: client_import_def lit_def sublist_code)
  have h5: "\<not> sublist (lit ''import {'') (lit ''const x = 1;'')"
    by (simp add: lit_def sublist_code)
  from import_insertion [OF b, of "lit ''import { PrismaClient } ''" "[nl] @ client_import"
         braces_line "lit ''const x = 1;''"]
       import_insertion [OF b, of "[]" "lit ''x''" braces_line "lit ''const x = 1;''"]
  show ?thesis
    using b h1 h2 h3 h4 h5 braces_line_stmt by simp
qed

text \<open>
  C1 as stated fails: this text is an import statement and does not contain
  \<^verbatim>\<open>from '@prisma/client';\<close>, and nothing is inserted, since it does not contain
  \<^verbatim>\<open>import {\<close>.
\<close>

theorem import_insertion_counterexample:
  "import_stmt plain_import_text
   \<and> \<not> sublist client_import plain_import_text
   \<and> insert_import (lit ''../lib/prisma'') plain_import_text = Inr plain_import_text"
proof -
  have "plain_import_text = lit ''import '' @ lit ''x from 'y'' @ [quote] @ lit '';'' @ [nl]
        \<and> nl \<notin> set (lit ''x from 'y'' @ [quote])"
    by (simp add: plain_import_text_def lit_def)
  then have "import_stmt plain_import_text"
    unfolding import_stmt_def by (metis append.assoc)
  moreover have "\<not> sublist client_import plain_import_text"
    by (simp add: client_import_def plain_import_text_def lit_def sublist_code)
  moreover have "\<not> sublist (lit ''import {'') plain_import_text"
    by (simp add: plain_import_text_def lit_def sublist_code)
  ultimately show ?thesis
    by (simp add: insert_import_def)
qed

section \<open>The declaration removal\<close>

text \<open>
  A declaration line: \<^verbatim>\<open>const prisma = new PrismaClient()\<close>, with or without a semicolon
  after it, between leading and trailing whitespace, and no newline in it.
  \<open>has_decl_line bol s\<close>: some line of \<open>s\<close> that ends with a newline is a declaration
  line; \<open>bol\<close> says whether \<open>s\<close> itself begins at the start of a line.
\<close>

definition decl_line :: "str \<Rightarrow> bool" where
  "decl_line l =
     (\<exists>ws1 semi ws2. l = ws1 @ prisma_decl @ semi @ ws2
        \<and> list_all is_space ws1 \<and> (semi = [] \<or> semi = [59]) \<and> list_all is_space ws2
        \<and> nl \<notin> set l)"

definition has_decl_line :: "bool \<Rightarrow> str \<Rightarrow> bool" where
  "has_decl_line bol s =
     (\<exists>pre l post. s = pre @ l @ [nl] @ post
        \<and> (if pre = [] then bol else last pre = nl) \<and> decl_line l)"

lemma greedy_ws_some: "k s \<noteq> None \<Longrightarrow> greedy_ws k s \<noteq> None"
  by (cases s) (auto split: option.splits)

lemma greedy_ws_skip:
  "list_all is_space ws \<Longrightarrow> greedy_ws k s \<noteq> None \<Longrightarrow> greedy_ws k (ws @ s) \<noteq> None"
  by (induction ws) (auto split: option.splits)

lemma opt_char_some: "k s \<noteq> None \<Longrightarrow> opt_char x k s \<noteq> None"
  by (cases s) (auto split: option.splits)

lemma match_decl_complete:
  assumes "decl_line l"
  shows "match_decl (l @ nl # rest) \<noteq> None"
proof -
  from assms obtain ws1 semi ws2 where l: "l = ws1 @ prisma_decl @ semi @ ws2"
    and ws1: "list_all is_space ws1" and semi: "semi = [] \<or> semi = [59]"
    and ws2: "list_all is_space ws2"
    by (auto simp: decl_line_def)
  let ?k3 = "lit_then [nl] Some"
  let ?k2 = "greedy_ws ?k3"
  have "?k3 (nl # rest) \<noteq> None"
    by (simp add: lit_then_def)
  then have "?k2 (nl # rest) \<noteq> None"
    by (rule greedy_ws_some)
  with ws2 have k2: "?k2 (ws2 @ nl # rest) \<noteq> None"
    by (rule greedy_ws_skip)
  have "opt_char 59 ?k2 (semi @ ws2 @ nl # rest) \<noteq> None"
  proof (cases "semi = []")
    case True
    with k2 show ?thesis
      by (simp add: opt_char_some)
  next
    case False
    with semi k2 show ?thesis
      by (auto split: option.splits)
  qed
  then have "lit_then prisma_decl (opt_char 59 ?k2) (prisma_decl @ semi @ ws2 @ nl # rest) \<noteq> None"
    by (simp add: lit_then_def)
  then have "greedy_ws (lit_then prisma_decl (opt_char 59 ?k2))
               (prisma_decl @ semi @ ws2 @ nl # rest) \<noteq> None"
    by (rule greedy_ws_some)
  with ws1 have "greedy_ws (lit_then prisma_decl (opt_char 59 ?k2))
               (ws1 @ prisma_decl @ semi @ ws2 @ nl # rest) \<noteq> None"
    by (rule greedy_ws_skip)
  then show ?thesis
    by (simp add: match_decl_def l)
qed

lemma copied_line:
  "nl \<notin> set x \<Longrightarrow> remove_decls False cs = x @ nl # post \<Longrightarrow> \<exists>rest. cs = x @ nl # rest"
proof (induction x arbitrary: cs)
  case Nil
  then show ?case
    by (cases cs) auto
next
  case (Cons a x)
  from Cons.prems(2) obtain c cs' where cs: "cs = c # cs'"
    by (cases cs) auto
  with Cons.prems have "c = a" and "a \<noteq> nl" and "remove_decls False cs' = x @ nl # post"
    by auto
  with Cons.IH [of cs'] Cons.prems(1) cs show ?case
    by auto
qed

lemma decl_line_not_empty: "decl_line l \<Longrightarrow> l \<noteq> []"
  by (auto simp: decl_line_def prisma_decl_def lit_def)

lemma match_decl_suffix:
  assumes "match_decl s = Some r"
  shows "suffix r s \<and> sublist prisma_decl s"
proof -
  from match_decl_Some [OF assms] obtain ws1 semi ws2
    where s: "s = ws1 @ prisma_decl @ semi @ ws2 @ [nl] @ r"
    by blast
  then have "s = (ws1 @ prisma_decl @ semi @ ws2 @ [nl]) @ r"
    and "s = ws1 @ prisma_decl @ (semi @ ws2 @ [nl] @ r)"
    by simp_all
  then show ?thesis
    unfolding suffix_def sublist_def by blast
qed

lemma remove_decls_clean: "\<not> has_decl_line bol (remove_decls bol s)"
proof (induction bol s rule: remove_decls.induct)
  case (1 bol)
  show ?case
    by (simp add: has_decl_line_def)
next
  case (2 bol c cs)
  show ?case
  proof (cases "if bol then match_decl (c # cs) else None")
    case (Some r)
    then have ih1: "\<not> has_decl_line True (remove_decls True r)"
      by (rule "2.IH"(2))
    from Some have bol
      by (simp split: if_splits)
    moreover have "remove_decls bol (c # cs) = remove_decls True r"
      using Some by simp
    ultimately show ?thesis
      using ih1 by simp
  next
    case None
    then have out: "remove_decls bol (c # cs) = c # remove_decls (c = nl) cs"
      by simp
    have ih: "\<not> has_decl_line (c = nl) (remove_decls (c = nl) cs)"
      using "2.IH"(1) None by simp
    show ?thesis
    proof
      assume "has_decl_line bol (remove_decls bol (c # cs))"
      then obtain pre l post where eq: "c # remove_decls (c = nl) cs = pre @ l @ [nl] @ post"
        and at: "if pre = [] then bol else last pre = nl" and dl: "decl_line l"
        unfolding has_decl_line_def out by blast
      show False
      proof (cases pre)
        case Nil
        with at have bol by simp
        with None have nomatch: "match_decl (c # cs) = None"
          by simp
        from dl obtain a x where l: "l = a # x"
          using decl_line_not_empty by (cases l) auto
        from dl have nonl: "nl \<notin> set l"
          by (auto simp: decl_line_def)
        with l eq Nil have "c = a" and "c \<noteq> nl" and "nl \<notin> set x"
          and "remove_decls False cs = x @ nl # post"
          by auto
        then obtain rest where "cs = x @ nl # rest"
          using copied_line by blast
        with l \<open>c = a\<close> have "c # cs = l @ nl # rest"
          by simp
        with match_decl_complete [OF dl, of rest] nomatch show False
          by simp
      next
        case (Cons p pre')
        with eq have rest: "remove_decls (c = nl) cs = pre' @ l @ [nl] @ post" and "p = c"
          by auto
        have "if pre' = [] then c = nl else last pre' = nl"
          using at Cons \<open>p = c\<close> by (auto split: if_splits)
        with rest dl have "has_decl_line (c = nl) (remove_decls (c = nl) cs)"
          unfolding has_decl_line_def by blast
        with ih show False
          by simp
      qed
    qed
  qed
qed

lemma remove_decls_absent: "\<not> sublist prisma_decl s \<Longrightarrow> remove_decls bol s = s"
proof (induction bol s rule: remove_decls.induct)
  case (1 bol)
  show ?case by simp
next
  case (2 bol c cs)
  have "match_decl (c # cs) = None"
  proof (cases "match_decl (c # cs)")
    case None
    then show ?thesis by simp
  next
    case (Some r)
    with "2.prems" match_decl_suffix [of "c # cs" r] show ?thesis
      by simp
  qed
  moreover from "2.prems" have "\<not> sublist prisma_decl cs"
    by (simp add: sublist_Cons_right)
  ultimately show ?case
    using "2.IH"(1) by simp
qed

lemma remove_decls_subseq: "subseq (remove_decls bol s) s"
proof (induction bol s rule: remove_decls.induct)
  case (1 bol)
  show ?case by simp
next
  case (2 bol c cs)
  show ?case
  proof (cases "if bol then match_decl (c # cs) else None")
    case None
    with "2.IH"(1) show ?thesis
      by simp
  next
    case (Some r)
    then have "match_decl (c # cs) = Some r"
      by (simp split: if_splits)
    then have "suffix r (c # cs)"
      using match_decl_suffix by blast
    then have "subseq r (c # cs)"
      by (rule suffix_imp_subseq)
    moreover have "subseq (remove_decls True r) r"
      using "2.IH"(2) Some by simp
    ultimately show ?thesis
      using Some by (auto intro: subseq_order.trans)
  qed
qed

lemma no_import_in_decl:
  "\<not> sublist client_import (prisma_decl @ semi_nl)
   \<and> \<not> sublist (lit ''import {'') (prisma_decl @ semi_nl)"
  if "semi_nl \<in> {lit '';'' @ [nl], [nl], lit '';''}"
  using that by (auto simp: client_import_def prisma_decl_def lit_def sublist_code)


lemma replace_unchanged:
  assumes "read_text w p = Some content"
    and "\<not> already_singleton content"
    and "calculate_relative_path (cwd w) p default_to_file = Inr rel_path"
    and "transform_content rel_path content = Inr content"
  shows "replace_prisma_in_file w p =
           (w\<lparr>trace := trace w @ [Print (Processing p), ReadFile p, Print NoChanges]\<rparr>,
            Inr False)"
proof -
  have "read_text (emit (Print (Processing p)) w) p = Some content"
    using assms(1) by (simp add: read_text_def emit_def)
  then show ?thesis
    using assms(2-4)
    by (simp add: replace_prisma_in_file_def Let_def) (simp add: emit_def)
qed

text \<open>The import of the client, as a line without its newline.\<close>

definition client_line :: str where
  "client_line = lit ''import { PrismaClient } from '@prisma/client';''"

text \<open>
  C2 fails on the code. The pattern of line 64 ends with \<^verbatim>\<open>\s*\n\<close>, so a declaration on
  the last line of a text that does not end with a newline is not matched. A file whose
  whole content is \<^verbatim>\<open>const prisma = new PrismaClient();\<close> is returned as it is, and the
  run reports that no change was needed; with a newline after it, the line is removed.
  The second example of the specification, the import of \<^verbatim>\<open>@prisma/client\<close> on the first
  line and the declaration on the second and last, gets the singleton import and keeps
  the declaration.
\<close>

theorem declaration_on_last_line_kept:
  "decl_line (prisma_decl @ lit '';'')
   \<and> transform_content (lit ''../lib/prisma'') (prisma_decl @ lit '';'')
       = Inr (prisma_decl @ lit '';'')
   \<and> replace_prisma_in_file (world_of foo_path (prisma_decl @ lit '';'')) foo_path
       = ((world_of foo_path (prisma_decl @ lit '';''))
            \<lparr>trace := [Print (Processing foo_path), ReadFile foo_path, Print NoChanges]\<rparr>,
          Inr False)
   \<and> transform_content (lit ''../lib/prisma'') (prisma_decl @ lit '';'' @ [nl]) = Inr []
   \<and> transform_content (lit ''../lib/prisma'') (client_line @ [nl] @ prisma_decl @ lit '';'')
       = Inr (client_line @ [nl] @ singleton_import (lit ''../lib/prisma'') @ [nl]
              @ prisma_decl @ lit '';'')"
proof -
  let ?t = "prisma_decl @ lit '';''"
  let ?w = "world_of foo_path ?t"
  have "?t = [] @ prisma_decl @ [59] @ []
        \<and> list_all is_space [] \<and> ([59] = [] \<or> [59] = [59::nat])
        \<and> nl \<notin> set ?t"
    by (simp add: prisma_decl_def lit_def)
  then have d: "decl_line ?t"
    unfolding decl_line_def by blast
  have t1: "transform_content (lit ''../lib/prisma'') ?t = Inr ?t"
    by (simp add: eval_defs)
  have t2: "transform_content (lit ''../lib/prisma'') (prisma_decl @ lit '';'' @ [nl]) = Inr []"
    by (simp add: eval_defs)
  have t3: "transform_content (lit ''../lib/prisma'') (client_line @ [nl] @ ?t)
       = Inr (client_line @ [nl] @ singleton_import (lit ''../lib/prisma'') @ [nl] @ ?t)"
    by (simp add: eval_defs client_line_def)
  have nc: "cr \<notin> set ?t"
    by (simp add: prisma_decl_def lit_def)
  have rt: "read_text ?w foo_path = Some ?t"
    by (simp add: read_text_def world_of_def universal_newlines_id [OF nc])
  have r: "calculate_relative_path (cwd ?w) foo_path default_to_file = Inr (lit ''../lib/prisma'')"
    using foo_rel_path by (simp add: world_of_def)
  have ns: "\<not> already_singleton ?t"
    by (simp add: eval_defs)
  have tr: "trace ?w = []"
    by (simp add: world_of_def)
  have s: "replace_prisma_in_file ?w foo_path
       = (?w\<lparr>trace := [Print (Processing foo_path), ReadFile foo_path, Print NoChanges]\<rparr>,
          Inr False)"
    using replace_unchanged [OF rt ns r t1] tr by simp
  show ?thesis
    using d t1 t2 t3 s by simp
qed

section \<open>The relative path in the replacement template\<close>

text \<open>
  For a relative source path with no \<^verbatim>\<open>..\<close> part, the specifier is made of \<^verbatim>\<open>..\<close>, of
  components of the target and of \<^verbatim>\<open>/\<close> and \<^verbatim>\<open>.\<close>: it carries no backslash into the
  replacement templates, which are then read as they are written.
\<close>

lemma join_with_chars: "set (join_with sep xs) \<subseteq> insert sep (\<Union>x\<in>set xs. set x)"
  by (induction sep xs rule: join_with.induct) auto

lemma relative_specifier_no_backslash:
  assumes "\<not> is_abs f" and "lit ''..'' \<notin> set (path_parts f)"
    and "calculate_relative_path wd f default_to_file = Inr r"
  shows "backslash \<notin> set r"
proof -
  let ?rel = "replicate (length (butlast (path_parts f))
                          - common_len (butlast (path_parts f)) target_comps) (lit ''..'')
              @ drop (common_len (butlast (path_parts f)) target_comps) target_comps"
  have r: "r = specifier ?rel"
    using calc_relative [OF assms(1,2), of wd] assms(3) by simp
  have "\<forall>x\<in>set target_comps. backslash \<notin> set x"
    by (simp add: target_comps_def lit_def)
  then have "\<forall>x\<in>set ?rel. backslash \<notin> set x"
    by (auto simp: lit_def dest: in_set_dropD)
  then have "backslash \<notin> set (join_with slash ?rel)"
    using join_with_chars [of slash ?rel] by auto
  then show ?thesis
    unfolding r specifier_def Let_def by (auto simp: lit_def)
qed

end
